theory Spec2Isabelle
  imports Main "HOL-Library.Word"
begin

section \<open>The Kafka group consumer of insights-kafka-monitor (consumer.go)\<close>

text \<open>
  A shallow embedding of \<^verbatim>\<open>consumer.go\<close>. The consumer is a record, every method is a
  function that takes the consumer and the world and returns them updated. The world holds
  what the methods touch outside the consumer: the structured log and the calls made into
  the sarama client library (one ordered trace), the channels and cancellable contexts
  allocated so far, and the wall clock. A Go panic is the left injection of a sum.
\<close>

subsection \<open>Data\<close>

type_synonym uint64 = "64 word"
type_synonym int64 = "64 word"
type_synonym int32 = "32 word"

text \<open>Go error values: \<^verbatim>\<open>context.Canceled\<close>, and any error the client library reports.\<close>

datatype go_error = ContextCanceled | LibraryError string

datatype go_panic =
    NilPointerDereference
  | CloseOfNilChannel
  | CloseOfClosedChannel

text \<open>\<^verbatim>\<open>sarama.ConsumerMessage\<close>: the fields the consumer reads. The payload is a byte
  sequence; the timestamp is kept as nanoseconds.\<close>

record ConsumerMessage =
  Timestamp :: int
  Value :: string
  msg_Topic :: string
  Partition :: int32
  Offset :: int64

text \<open>Modelled from the spec: the declaration of \<^verbatim>\<open>BrokerConfiguration\<close> is not in
  consumer.go; the spec gives it as \<^verbatim>\<open>BrokerConfiguration{Address, Topic, Group, Timeout}\<close>,
  the timeout being a duration.\<close>

record BrokerConfiguration =
  Address :: string
  Topic :: string
  Group :: string
  Timeout :: int

text \<open>\<^verbatim>\<open>sarama.Config\<close>: the protocol version and the three network timeouts named in
  \<^verbatim>\<open>NewWithSaramaConfig\<close>.\<close>

datatype KafkaVersion = KafkaVersion nat nat nat nat

definition V0_10_2_0 :: KafkaVersion where
  "V0_10_2_0 = KafkaVersion 0 10 2 0"

record Config =
  Version :: KafkaVersion
  DialTimeout :: int
  ReadTimeout :: int
  WriteTimeout :: int

text \<open>The consumer. \<^verbatim>\<open>ConsumerGroup\<close> is an interface value, \<^verbatim>\<open>Ready\<close> a channel and
  \<^verbatim>\<open>Cancel\<close> a function value: each may be nil (\<open>None\<close>), otherwise it names the
  client, the channel, or the context that the function cancels.\<close>

record KafkaConsumer =
  Configuration :: BrokerConfiguration
  ConsumerGroup :: "nat option"
  numberOfSuccessfullyConsumedMessages :: uint64
  numberOfErrorsConsumingMessages :: uint64
  Verbose :: bool
  Ready :: "nat option"
  Cancel :: "nat option"

text \<open>\<^verbatim>\<open>sarama.ConsumerGroupClaim\<close>: its initial offset and the messages its channel yields
  until the generation ends. The channel carries pointers, so an element may be nil.\<close>

record ConsumerGroupClaim =
  InitialOffset :: int64
  Messages :: "ConsumerMessage option list"

subsection \<open>The world: log, library calls, channels, contexts, clock\<close>

datatype log_level = InfoLevel | ErrorLevel | FatalLevel

datatype log_field =
    StrF string string
  | IntF string int
  | Int32F string int32
  | Int64F string int64
  | Uint64F string uint64
  | TimeF string int
  | ErrF go_error

text \<open>\<open>Msgf\<close> carries the format and the elapsed time it is applied to (in nanoseconds;
  the source prints it in seconds).\<close>

datatype log_text = Msg string | Msgf string int

datatype lib_call =
    NewConsumerGroup "string list" string Config
  | ConsumerGroup_Consume nat nat "string list"
  | ConsumerGroup_Close nat
  | MarkMessage nat "ConsumerMessage option" string
  | os_Exit int

datatype event = Logged log_level "log_field list" log_text | Called lib_call

datatype chan_state = ChanOpen | ChanClosed

record world =
  trace :: "event list"
  chans :: "chan_state list"
  ctxs :: "bool list"
  groups :: nat
  now :: "nat \<Rightarrow> int"
  ticks :: nat
  DefaultSaramaConfig :: "Config option"

definition emit :: "log_level \<Rightarrow> log_field list \<Rightarrow> log_text \<Rightarrow> world \<Rightarrow> world" where
  "emit lvl fs txt w = w\<lparr>trace := trace w @ [Logged lvl fs txt]\<rparr>"

definition call :: "lib_call \<Rightarrow> world \<Rightarrow> world" where
  "call c w = w\<lparr>trace := trace w @ [Called c]\<rparr>"

text \<open>\<^verbatim>\<open>time.Now()\<close>: the next reading of the clock.\<close>

definition time_Now :: "world \<Rightarrow> int \<times> world" where
  "time_Now w = (now w (ticks w), w\<lparr>ticks := Suc (ticks w)\<rparr>)"

text \<open>\<^verbatim>\<open>make(chan bool)\<close>: a new open channel, with an address no channel had before.\<close>

definition make_chan :: "world \<Rightarrow> nat \<times> world" where
  "make_chan w = (length (chans w), w\<lparr>chans := chans w @ [ChanOpen]\<rparr>)"

text \<open>\<^verbatim>\<open>close(ch)\<close>: panics on a nil channel and on a channel that is already closed.\<close>

definition close_chan :: "nat option \<Rightarrow> world \<Rightarrow> go_panic + world" where
  "close_chan ch w =
     (case ch of
        None \<Rightarrow> Inl CloseOfNilChannel
      | Some r \<Rightarrow>
          if r < length (chans w) \<and> chans w ! r = ChanOpen
          then Inr (w\<lparr>chans := (chans w)[r := ChanClosed]\<rparr>)
          else Inl CloseOfClosedChannel)"

text \<open>\<^verbatim>\<open>context.WithCancel(context.Background())\<close>, the cancel function it returns, and
  \<^verbatim>\<open>ctx.Err()\<close>.\<close>

definition context_WithCancel :: "world \<Rightarrow> nat \<times> world" where
  "context_WithCancel w = (length (ctxs w), w\<lparr>ctxs := ctxs w @ [False]\<rparr>)"

definition cancel :: "nat \<Rightarrow> world \<Rightarrow> world" where
  "cancel ctx w = w\<lparr>ctxs := (ctxs w)[ctx := True]\<rparr>"

definition ctx_Err :: "nat \<Rightarrow> world \<Rightarrow> go_error option" where
  "ctx_Err ctx w = (if ctx < length (ctxs w) \<and> ctxs w ! ctx then Some ContextCanceled else None)"

subsection \<open>Keys of the structured log\<close>

definition topicKey :: string where "topicKey = ''topic''"
definition groupKey :: string where "groupKey = ''group''"
definition offsetKey :: string where "offsetKey = ''offset''"
definition partitionKey :: string where "partitionKey = ''partition''"

subsection \<open>Construction\<close>

text \<open>
  \<^verbatim>\<open>NewWithSaramaConfig\<close>. The client library is outside the repository, so what it answers
  is a parameter: \<open>dflt\<close> is the configuration \<^verbatim>\<open>sarama.NewConfig()\<close> returns and
  \<open>new_group\<close> says, from the arguments of \<^verbatim>\<open>sarama.NewConsumerGroup\<close>, whether the
  client can be created. The block that would copy \<^verbatim>\<open>brokerCfg.Timeout\<close> into the
  network timeouts is a comment in the source and has no counterpart here.
\<close>

definition NewWithSaramaConfig ::
  "Config \<Rightarrow> (string list \<Rightarrow> string \<Rightarrow> Config \<Rightarrow> go_error option) \<Rightarrow>
   BrokerConfiguration \<Rightarrow> Config option \<Rightarrow> bool \<Rightarrow> world \<Rightarrow> (go_error + KafkaConsumer) \<times> world" where
  "NewWithSaramaConfig dflt new_group brokerCfg saramaConfig verbose w =
     (let saramaConfig' = (case saramaConfig of
                             None \<Rightarrow> dflt\<lparr>Version := V0_10_2_0\<rparr>
                           | Some cfg \<Rightarrow> cfg);
          w1 = emit InfoLevel [StrF ''addr'' (Address brokerCfg), StrF ''group'' (Group brokerCfg)]
                 (Msg ''Configuration'') w;
          w2 = call (NewConsumerGroup [Address brokerCfg] (Group brokerCfg) saramaConfig') w1
      in case new_group [Address brokerCfg] (Group brokerCfg) saramaConfig' of
           Some err \<Rightarrow> (Inl err, w2)
         | None \<Rightarrow>
             let consumerGroup = groups w2;
                 w3 = w2\<lparr>groups := Suc (groups w2)\<rparr>;
                 (ready, w4) = make_chan w3
             in (Inr \<lparr>Configuration = brokerCfg,
                      ConsumerGroup = Some consumerGroup,
                      numberOfSuccessfullyConsumedMessages = 0,
                      numberOfErrorsConsumingMessages = 0,
                      Verbose = verbose,
                      Ready = Some ready,
                      Cancel = None\<rparr>, w4))"

definition NewConsumer ::
  "Config \<Rightarrow> (string list \<Rightarrow> string \<Rightarrow> Config \<Rightarrow> go_error option) \<Rightarrow>
   BrokerConfiguration \<Rightarrow> bool \<Rightarrow> world \<Rightarrow> (go_error + KafkaConsumer) \<times> world" where
  "NewConsumer dflt new_group brokerCfg verbose w =
     NewWithSaramaConfig dflt new_group brokerCfg (DefaultSaramaConfig w) verbose w"

subsection \<open>Counters\<close>

definition GetNumberOfSuccessfullyConsumedMessages :: "KafkaConsumer \<Rightarrow> uint64" where
  "GetNumberOfSuccessfullyConsumedMessages consumer = numberOfSuccessfullyConsumedMessages consumer"

definition GetNumberOfErrorsConsumingMessages :: "KafkaConsumer \<Rightarrow> uint64" where
  "GetNumberOfErrorsConsumingMessages consumer = numberOfErrorsConsumingMessages consumer"

subsection \<open>Processing and handling one message\<close>

text \<open>\<^verbatim>\<open>ProcessMessage\<close> reads \<^verbatim>\<open>msg.Value\<close> first, which panics on a nil message.\<close>

type_synonym processing =
  "KafkaConsumer \<Rightarrow> ConsumerMessage option \<Rightarrow> world \<Rightarrow> go_panic + (go_error option \<times> world)"

definition ProcessMessage :: processing where
  "ProcessMessage consumer msg w =
     (case msg of
        None \<Rightarrow> Inl NilPointerDereference
      | Some m \<Rightarrow>
          let val = Value m;
              w1 = emit InfoLevel [IntF ''length'' (int (length val))] (Msg ''Message length'') w;
              w2 = (if Verbose consumer
                    then emit InfoLevel [StrF ''content'' val] (Msg ''Message value'') w1
                    else w1)
          in Inr (None, w2))"

text \<open>
  \<^verbatim>\<open>HandleMessage\<close>, with the processing step it calls as a parameter, so that a step
  that fails can be put in its place; \<open>HandleMessage\<close> itself is the method of the source,
  which calls \<open>ProcessMessage\<close>.
\<close>

definition HandleMessage_with ::
  "processing \<Rightarrow> KafkaConsumer \<Rightarrow> ConsumerMessage option \<Rightarrow> world \<Rightarrow> go_panic + (KafkaConsumer \<times> world)" where
  "HandleMessage_with process consumer msg w =
     (case msg of
        None \<Rightarrow> Inr (consumer, emit ErrorLevel [] (Msg ''nil message'') w)
      | Some m \<Rightarrow>
          let w1 = emit InfoLevel
                     [Int64F offsetKey (Offset m), Int32F partitionKey (Partition m),
                      StrF topicKey (msg_Topic m), TimeF ''message_timestamp'' (Timestamp m)]
                     (Msg ''Started processing message'') w;
              (startTime, w2) = time_Now w1
          in case process consumer msg w2 of
               Inl p \<Rightarrow> Inl p
             | Inr (err, w3) \<Rightarrow>
                 let (timeAfterProcessingMessage, w4) = time_Now w3;
                     messageProcessingDuration = timeAfterProcessingMessage - startTime;
                     (consumer', w5) =
                       (case err of
                          Some e \<Rightarrow>
                            (consumer\<lparr>numberOfErrorsConsumingMessages :=
                                        numberOfErrorsConsumingMessages consumer + 1\<rparr>,
                             emit ErrorLevel [ErrF e]
                               (Msg ''Error processing message consumed from Kafka'') w4)
                        | None \<Rightarrow>
                            (consumer\<lparr>numberOfSuccessfullyConsumedMessages :=
                                        numberOfSuccessfullyConsumedMessages consumer + 1\<rparr>, w4))
                 in Inr (consumer',
                         emit InfoLevel
                           [StrF topicKey (Topic (Configuration consumer')),
                            StrF groupKey (Group (Configuration consumer')),
                            Int64F offsetKey (Offset m), Int32F partitionKey (Partition m),
                            StrF topicKey (msg_Topic m),
                            Uint64F ''consumed messages'' (numberOfSuccessfullyConsumedMessages consumer'),
                            Uint64F ''errors'' (numberOfErrorsConsumingMessages consumer')]
                           (Msgf ''Processing of message took '%v' seconds'' messageProcessingDuration)
                           w5))"

definition HandleMessage ::
  "KafkaConsumer \<Rightarrow> ConsumerMessage option \<Rightarrow> world \<Rightarrow> go_panic + (KafkaConsumer \<times> world)" where
  "HandleMessage = HandleMessage_with ProcessMessage"

subsection \<open>The handler the client library calls back\<close>

text \<open>\<^verbatim>\<open>Setup\<close> and \<^verbatim>\<open>Cleanup\<close> ignore the session they are given.\<close>

definition Setup :: "KafkaConsumer \<Rightarrow> world \<Rightarrow> go_panic + (go_error option \<times> world)" where
  "Setup consumer w =
     (case close_chan (Ready consumer) (emit InfoLevel [] (Msg ''New session has been setup'') w) of
        Inl p \<Rightarrow> Inl p
      | Inr w' \<Rightarrow> Inr (None, w'))"

definition Cleanup :: "KafkaConsumer \<Rightarrow> world \<Rightarrow> go_error option \<times> world" where
  "Cleanup consumer w = (None, emit InfoLevel [] (Msg ''New session has been finished'') w)"

text \<open>The body of the \<^verbatim>\<open>for message := range claim.Messages()\<close> loop, over the messages the
  channel yields. The session is an interface value named by a number.\<close>

fun claim_loop ::
  "processing \<Rightarrow> nat \<Rightarrow> KafkaConsumer \<Rightarrow> world \<Rightarrow> ConsumerMessage option list \<Rightarrow>
   go_panic + (KafkaConsumer \<times> world)" where
  "claim_loop process session consumer w [] = Inr (consumer, w)"
| "claim_loop process session consumer w (message # rest) =
     (case HandleMessage_with process consumer message w of
        Inl p \<Rightarrow> Inl p
      | Inr (consumer', w') \<Rightarrow>
          claim_loop process session consumer' (call (MarkMessage session message '''') w') rest)"

definition ConsumeClaim_with ::
  "processing \<Rightarrow> KafkaConsumer \<Rightarrow> nat \<Rightarrow> ConsumerGroupClaim \<Rightarrow> world \<Rightarrow>
   go_panic + (go_error option \<times> KafkaConsumer \<times> world)" where
  "ConsumeClaim_with process consumer session claim w =
     (case claim_loop process session consumer
             (emit InfoLevel [Int64F offsetKey (InitialOffset claim)] (Msg ''Starting messages loop'') w)
             (Messages claim) of
        Inl p \<Rightarrow> Inl p
      | Inr (consumer', w') \<Rightarrow> Inr (None, consumer', w'))"

definition ConsumeClaim ::
  "KafkaConsumer \<Rightarrow> nat \<Rightarrow> ConsumerGroupClaim \<Rightarrow> world \<Rightarrow>
   go_panic + (go_error option \<times> KafkaConsumer \<times> world)" where
  "ConsumeClaim = ConsumeClaim_with ProcessMessage"

text \<open>
  The client library runs \<^verbatim>\<open>ConsumeClaim\<close> in a goroutine of its own for every claim of the
  session (the source says so where it describes \<^verbatim>\<open>Serve\<close> and \<^verbatim>\<open>Cleanup\<close>), so the claim
  loops of several partitions run at the same time on the one consumer. For that,
  \<^verbatim>\<open>ConsumeClaim\<close> is also given in steps: its first log line, and each pass of its loop,
  which is \<^verbatim>\<open>HandleMessage\<close> for the message and then \<^verbatim>\<open>MarkMessage\<close>.
\<close>

datatype claim_step =
    StartLoop nat ConsumerGroupClaim
  | LoopPass nat "ConsumerMessage option"

fun claim_step_with ::
  "processing \<Rightarrow> claim_step \<Rightarrow> KafkaConsumer \<Rightarrow> world \<Rightarrow> go_panic + (KafkaConsumer \<times> world)" where
  "claim_step_with process (StartLoop session claim) consumer w =
     Inr (consumer,
          emit InfoLevel [Int64F offsetKey (InitialOffset claim)] (Msg ''Starting messages loop'') w)"
| "claim_step_with process (LoopPass session message) consumer w =
     (case HandleMessage_with process consumer message w of
        Inl p \<Rightarrow> Inl p
      | Inr (consumer', w') \<Rightarrow> Inr (consumer', call (MarkMessage session message '''') w'))"


text \<open>The messages a step hands to \<^verbatim>\<open>HandleMessage\<close>.\<close>

fun passed :: "claim_step \<Rightarrow> ConsumerMessage option list" where
  "passed (StartLoop session claim) = []"
| "passed (LoopPass session message) = [message]"



subsection \<open>Closing\<close>

text \<open>\<^verbatim>\<open>Close\<close>. \<open>closed\<close> is what \<^verbatim>\<open>ConsumerGroup.Close()\<close> of the client library
  answers, should it be called.\<close>

definition Close :: "go_error option \<Rightarrow> KafkaConsumer \<Rightarrow> world \<Rightarrow> go_panic + (go_error option \<times> world)" where
  "Close closed consumer w =
     (let w1 = (case Cancel consumer of
                  Some ctx \<Rightarrow> cancel ctx w
                | None \<Rightarrow> w);
          w2 = (case ConsumerGroup consumer of
                  Some g \<Rightarrow>
                    (case closed of
                       Some err \<Rightarrow> emit ErrorLevel [ErrF err] (Msg ''Unable to close consumer group'')
                                    (call (ConsumerGroup_Close g) w1)
                     | None \<Rightarrow> call (ConsumerGroup_Close g) w1)
                | None \<Rightarrow> w1)
      in Inr (None, w2))"

subsection \<open>The session driver\<close>

text \<open>
  While \<^verbatim>\<open>ConsumerGroup.Consume\<close> runs, the client library calls the handler back, and other
  goroutines may call the consumer's public methods (\<^verbatim>\<open>Close\<close> above all, which is how
  cancellation is requested). An \<open>activity\<close> is one such call, or one step of a claim loop
  that runs at the same time as others. A \<open>generation\<close> is what happens during one call of
  \<^verbatim>\<open>Consume\<close>: the activities, and the error (or nil) that \<^verbatim>\<open>Consume\<close> returns in the
  end.

  The activities of a generation take effect one at a time, in the order of the list: an
  interleaving of the passes of concurrent claim loops is such a list, and so is any order
  of whole calls. Goroutines that are inside the same \<^verbatim>\<open>counter++\<close> at the same time are
  not: what the source does then is in the last subsection of the definitions.
\<close>

datatype activity =
    CallSetup nat
  | CallConsumeClaim nat ConsumerGroupClaim
  | CallCleanup nat
  | CallHandleMessage "ConsumerMessage option"
  | CallProcessMessage "ConsumerMessage option"
  | CallClose "go_error option"
  | CallGetNumberOfSuccessfullyConsumedMessages
  | CallGetNumberOfErrorsConsumingMessages
  | StepOfClaim claim_step

fun perform_with ::
  "processing \<Rightarrow> activity \<Rightarrow> KafkaConsumer \<Rightarrow> world \<Rightarrow> go_panic + (KafkaConsumer \<times> world)" where
  "perform_with process (CallSetup session) consumer w =
     (case Setup consumer w of Inl p \<Rightarrow> Inl p | Inr (_, w') \<Rightarrow> Inr (consumer, w'))"
| "perform_with process (CallConsumeClaim session claim) consumer w =
     (case ConsumeClaim_with process consumer session claim w of
        Inl p \<Rightarrow> Inl p
      | Inr (_, consumer', w') \<Rightarrow> Inr (consumer', w'))"
| "perform_with process (CallCleanup session) consumer w = Inr (consumer, snd (Cleanup consumer w))"
| "perform_with process (CallHandleMessage msg) consumer w = HandleMessage_with process consumer msg w"
| "perform_with process (CallProcessMessage msg) consumer w =
     (case process consumer msg w of Inl p \<Rightarrow> Inl p | Inr (_, w') \<Rightarrow> Inr (consumer, w'))"
| "perform_with process (CallClose closed) consumer w =
     (case Close closed consumer w of Inl p \<Rightarrow> Inl p | Inr (_, w') \<Rightarrow> Inr (consumer, w'))"
| "perform_with process CallGetNumberOfSuccessfullyConsumedMessages consumer w = Inr (consumer, w)"
| "perform_with process CallGetNumberOfErrorsConsumingMessages consumer w = Inr (consumer, w)"
| "perform_with process (StepOfClaim step) consumer w = claim_step_with process step consumer w"

fun perform_all_with ::
  "processing \<Rightarrow> activity list \<Rightarrow> KafkaConsumer \<Rightarrow> world \<Rightarrow> go_panic + (KafkaConsumer \<times> world)" where
  "perform_all_with process [] consumer w = Inr (consumer, w)"
| "perform_all_with process (a # as) consumer w =
     (case perform_with process a consumer w of
        Inl p \<Rightarrow> Inl p
      | Inr (consumer', w') \<Rightarrow> perform_all_with process as consumer' w')"

record generation =
  activities :: "activity list"
  returned :: "go_error option"

text \<open>
  How the goroutine of \<^verbatim>\<open>Serve\<close> can end: it returns because the context is cancelled
  (\<open>Stopped\<close>), \<^verbatim>\<open>log.Fatal\<close> exits the process (\<open>Halted\<close>), or it panics. \<open>Blocked\<close> is
  the loop that has not ended: it has called \<^verbatim>\<open>Consume\<close> again and waits in it.
\<close>

datatype loop_outcome =
    Stopped KafkaConsumer world
  | Halted world
  | Panicked go_panic
  | Blocked KafkaConsumer world

text \<open>The \<^verbatim>\<open>for\<close> loop of the goroutine, against the generations the environment
  supplies; when they are used up the loop is inside \<^verbatim>\<open>Consume\<close>.\<close>

fun Serve_loop_with ::
  "processing \<Rightarrow> nat \<Rightarrow> generation list \<Rightarrow> KafkaConsumer \<Rightarrow> world \<Rightarrow> loop_outcome" where
  "Serve_loop_with process ctx [] consumer w =
     (case ConsumerGroup consumer of
        None \<Rightarrow> Panicked NilPointerDereference
      | Some g \<Rightarrow>
          Blocked consumer (call (ConsumerGroup_Consume g ctx [Topic (Configuration consumer)]) w))"
| "Serve_loop_with process ctx (gen # gens) consumer w =
     (case ConsumerGroup consumer of
        None \<Rightarrow> Panicked NilPointerDereference
      | Some g \<Rightarrow>
          (case perform_all_with process (activities gen) consumer
                  (call (ConsumerGroup_Consume g ctx [Topic (Configuration consumer)]) w) of
             Inl p \<Rightarrow> Panicked p
           | Inr (consumer1, w1) \<Rightarrow>
               (case returned gen of
                  Some err \<Rightarrow>
                    Halted (call (os_Exit 1)
                              (emit FatalLevel [ErrF err] (Msg ''Unable to recreate Kafka session'') w1))
                | None \<Rightarrow>
                    (case ctx_Err ctx w1 of
                       Some e \<Rightarrow> Stopped consumer1 (emit InfoLevel [ErrF e] (Msg ''Stopping consumer'') w1)
                     | None \<Rightarrow>
                         (let (ready, w2) = make_chan (emit InfoLevel [] (Msg ''Created new kafka session'') w1)
                          in Serve_loop_with process ctx gens (consumer1\<lparr>Ready := Some ready\<rparr>) w2)))))"

text \<open>
  \<^verbatim>\<open>Serve\<close>: the context is created and its cancel function stored, then the goroutine
  runs. The calling thread only waits (for the ready channel, then for the context) and
  logs; its waits are not part of the model.
\<close>

definition Serve_with :: "processing \<Rightarrow> generation list \<Rightarrow> KafkaConsumer \<Rightarrow> world \<Rightarrow> loop_outcome" where
  "Serve_with process gens consumer w =
     (let (ctx, w1) = context_WithCancel w
      in Serve_loop_with process ctx gens (consumer\<lparr>Cancel := Some ctx\<rparr>) w1)"

definition perform :: "activity \<Rightarrow> KafkaConsumer \<Rightarrow> world \<Rightarrow> go_panic + (KafkaConsumer \<times> world)" where
  "perform = perform_with ProcessMessage"

definition Serve_loop :: "nat \<Rightarrow> generation list \<Rightarrow> KafkaConsumer \<Rightarrow> world \<Rightarrow> loop_outcome" where
  "Serve_loop = Serve_loop_with ProcessMessage"

definition Serve :: "generation list \<Rightarrow> KafkaConsumer \<Rightarrow> world \<Rightarrow> loop_outcome" where
  "Serve = Serve_with ProcessMessage"

text \<open>
  A generation that ends in a rebalance, with its claims consumed one after the other: the
  library sets the session up, consumes the claims, cleans up, and \<^verbatim>\<open>Consume\<close> returns
  nil.
\<close>

definition rebalance :: "nat \<Rightarrow> ConsumerGroupClaim list \<Rightarrow> generation" where
  "rebalance session claims =
     \<lparr>activities = CallSetup session # map (CallConsumeClaim session) claims @ [CallCleanup session],
      returned = None\<rparr>"

subsection \<open>Observations on the trace\<close>

text \<open>
  What a claim loop can be seen doing to a message: \<^verbatim>\<open>HandleMessage\<close> is entered (its first
  action is a log line, with the fields of the message, or the complaint about a nil
  message), and \<^verbatim>\<open>session.MarkMessage\<close> is called.
\<close>

datatype step =
    Entered "log_field list"
  | EnteredNil
  | Marked nat "ConsumerMessage option" string

fun step_of :: "event \<Rightarrow> step list" where
  "step_of (Called (MarkMessage session msg metadata)) = [Marked session msg metadata]"
| "step_of (Logged lvl fs (Msg txt)) =
     (if lvl = ErrorLevel \<and> fs = [] \<and> txt = ''nil message'' then [EnteredNil]
      else if lvl = InfoLevel \<and> txt = ''Started processing message'' then [Entered fs]
      else [])"
| "step_of e = []"

definition steps :: "event list \<Rightarrow> step list" where
  "steps es = concat (map step_of es)"

text \<open>The first log line of \<^verbatim>\<open>HandleMessage\<close> for a message, as a step.\<close>

definition entered :: "ConsumerMessage option \<Rightarrow> step" where
  "entered msg =
     (case msg of
        None \<Rightarrow> EnteredNil
      | Some m \<Rightarrow>
          Entered [Int64F offsetKey (Offset m), Int32F partitionKey (Partition m),
                   StrF topicKey (msg_Topic m), TimeF ''message_timestamp'' (Timestamp m)])"

text \<open>The payload lengths logged by \<^verbatim>\<open>ProcessMessage\<close>, in order.\<close>

fun length_of :: "event \<Rightarrow> int list" where
  "length_of (Logged lvl [IntF k n] (Msg txt)) =
     (if lvl = InfoLevel \<and> k = ''length'' \<and> txt = ''Message length'' then [n] else [])"
| "length_of e = []"

definition logged_lengths :: "event list \<Rightarrow> int list" where
  "logged_lengths es = concat (map length_of es)"

text \<open>The number of messages of a sequence that are not nil.\<close>

definition non_nil :: "ConsumerMessage option list \<Rightarrow> nat" where
  "non_nil msgs = length (filter (\<lambda>msg. msg \<noteq> None) msgs)"


text \<open>The number of non-nil messages an activity hands to \<^verbatim>\<open>HandleMessage\<close>.\<close>

fun delivered :: "activity \<Rightarrow> nat" where
  "delivered (CallConsumeClaim session claim) = non_nil (Messages claim)"
| "delivered (CallHandleMessage msg) = non_nil [msg]"
| "delivered (StepOfClaim step) = non_nil (passed step)"
| "delivered a = 0"


text \<open>The same consumer, constructed from a configuration with another timeout.\<close>

definition with_Timeout :: "int \<Rightarrow> KafkaConsumer \<Rightarrow> KafkaConsumer" where
  "with_Timeout t consumer = consumer\<lparr>Configuration := (Configuration consumer)\<lparr>Timeout := t\<rparr>\<rparr>"

fun outcome_with_Timeout :: "int \<Rightarrow> loop_outcome \<Rightarrow> loop_outcome" where
  "outcome_with_Timeout t (Stopped consumer w) = Stopped (with_Timeout t consumer) w"
| "outcome_with_Timeout t (Blocked consumer w) = Blocked (with_Timeout t consumer) w"
| "outcome_with_Timeout t (Halted w) = Halted w"
| "outcome_with_Timeout t (Panicked p) = Panicked p"

text \<open>A world in which nothing has happened yet; the clock reads \<open>clock\<close>.\<close>

definition initial_world :: "(nat \<Rightarrow> int) \<Rightarrow> world" where
  "initial_world clock =
     \<lparr>trace = [], chans = [], ctxs = [], groups = 0, now = clock, ticks = 0,
      DefaultSaramaConfig = None\<rparr>"

subsection \<open>Increments that overlap\<close>

text \<open>
  \<^verbatim>\<open>consumer.numberOfSuccessfullyConsumedMessages++\<close> reads the field and then writes the
  value it has read plus one; the source takes no lock and uses no atomic operation. When
  the goroutines of several claim loops are at that statement, their reads and writes are
  taken in some order. \<open>regs g\<close> is the value goroutine \<open>g\<close> has read last.
\<close>

datatype access = ReadCounter nat | WriteCounter nat

fun racy_success :: "access list \<Rightarrow> (nat \<Rightarrow> uint64) \<Rightarrow> KafkaConsumer \<Rightarrow> KafkaConsumer" where
  "racy_success [] regs consumer = consumer"
| "racy_success (ReadCounter g # rest) regs consumer =
     racy_success rest (regs(g := numberOfSuccessfullyConsumedMessages consumer)) consumer"
| "racy_success (WriteCounter g # rest) regs consumer =
     racy_success rest regs (consumer\<lparr>numberOfSuccessfullyConsumedMessages := regs g + 1\<rparr>)"

section \<open>Properties\<close>

subsection \<open>Projections of the world after logging, library calls and clock readings\<close>

lemma trace_emit [simp]: "trace (emit lvl fs txt w) = trace w @ [Logged lvl fs txt]"
  and chans_emit [simp]: "chans (emit lvl fs txt w) = chans w"
  and ctxs_emit [simp]: "ctxs (emit lvl fs txt w) = ctxs w"
  and groups_emit [simp]: "groups (emit lvl fs txt w) = groups w"
  by (simp_all add: emit_def)

lemma trace_call [simp]: "trace (call c w) = trace w @ [Called c]"
  and chans_call [simp]: "chans (call c w) = chans w"
  and ctxs_call [simp]: "ctxs (call c w) = ctxs w"
  and groups_call [simp]: "groups (call c w) = groups w"
  by (simp_all add: call_def)

lemma trace_time_Now [simp]: "trace (snd (time_Now w)) = trace w"
  and chans_time_Now [simp]: "chans (snd (time_Now w)) = chans w"
  and ctxs_time_Now [simp]: "ctxs (snd (time_Now w)) = ctxs w"
  by (simp_all add: time_Now_def)

lemma steps_append [simp]: "steps (xs @ ys) = steps xs @ steps ys"
  by (simp add: steps_def)

lemma logged_lengths_append [simp]:
  "logged_lengths (xs @ ys) = logged_lengths xs @ logged_lengths ys"
  by (simp add: logged_lengths_def)

subsection \<open>A nil message\<close>

text \<open>
  Claim C3. \<^verbatim>\<open>HandleMessage\<close> on a nil message returns normally (it does not panic), with
  the consumer as it was, so both counters keep their values, and with one more line in
  the log, the error \<^verbatim>\<open>nil message\<close>. The processing step is not called: the result is
  the same whatever the step is, while \<^verbatim>\<open>ProcessMessage\<close> on a nil message would panic.
\<close>

theorem HandleMessage_nil:
  "HandleMessage consumer None w =
     Inr (consumer, w\<lparr>trace := trace w @ [Logged ErrorLevel [] (Msg ''nil message'')]\<rparr>)
   \<and> HandleMessage_with process consumer None w = HandleMessage consumer None w
   \<and> ProcessMessage consumer None w = Inl NilPointerDereference"
  by (simp add: HandleMessage_def HandleMessage_with_def ProcessMessage_def emit_def)

subsection \<open>Closing\<close>

text \<open>
  Claim C4. \<^verbatim>\<open>Close\<close> on a consumer whose \<^verbatim>\<open>Cancel\<close> is nil does not panic and still
  closes the consumer group, when there is one: the call of the client's \<^verbatim>\<open>Close\<close> is
  the next event of the trace, followed by an error line exactly when the client reported
  an error. Calling \<^verbatim>\<open>Close\<close> again, on any consumer, does not panic either, returns nil,
  and leaves the contexts as the first call left them.
\<close>

theorem Close_without_Cancel:
  "Close closed (consumer\<lparr>Cancel := None, ConsumerGroup := Some g\<rparr>) w =
     Inr (None, w\<lparr>trace := trace w @ Called (ConsumerGroup_Close g) #
            (case closed of
               None \<Rightarrow> []
             | Some err \<Rightarrow> [Logged ErrorLevel [ErrF err] (Msg ''Unable to close consumer group'')])\<rparr>)
   \<and> Close closed (consumer\<lparr>Cancel := None, ConsumerGroup := None\<rparr>) w = Inr (None, w)
   \<and> (case Close closed1 consumer w of
         Inl p \<Rightarrow> False
       | Inr (err1, w1) \<Rightarrow>
           err1 = None \<and>
           (case Close closed2 consumer w1 of
              Inl p \<Rightarrow> False
            | Inr (err2, w2) \<Rightarrow> err2 = None \<and> ctxs w2 = ctxs w1))"
  by (simp add: Close_def emit_def call_def cancel_def split: option.split)

text \<open>
  Claim C5. \<^verbatim>\<open>Close\<close> returns nil whatever the client's \<^verbatim>\<open>Close\<close> answers; an error of
  the client is logged at error level, after the call, and goes no further.
\<close>

theorem Close_returns_nil:
  "(case Close closed consumer w of Inl p \<Rightarrow> False | Inr (err, w') \<Rightarrow> err = None)
   \<and> Close (Some e) (consumer\<lparr>ConsumerGroup := Some g\<rparr>) w =
       Inr (None, emit ErrorLevel [ErrF e] (Msg ''Unable to close consumer group'')
                    (call (ConsumerGroup_Close g)
                       (case Cancel consumer of None \<Rightarrow> w | Some ctx \<Rightarrow> cancel ctx w)))"
  by (simp add: Close_def Let_def split: option.split)

subsection \<open>Handling one message\<close>

text \<open>What \<^verbatim>\<open>HandleMessage\<close> returns once the processing step has returned: one counter is
  one higher, and the lines it logs after the step are neither steps of the claim loop nor
  payload lengths.\<close>

lemma HandleMessage_with_Some:
  fixes m w
  defines "w1 \<equiv> emit InfoLevel
                     [Int64F offsetKey (Offset m), Int32F partitionKey (Partition m),
                      StrF topicKey (msg_Topic m), TimeF ''message_timestamp'' (Timestamp m)]
                     (Msg ''Started processing message'') w"
  assumes "process consumer (Some m) (snd (time_Now w1)) = Inr (err, w3)"
  shows "\<exists>w'. HandleMessage_with process consumer (Some m) w =
            Inr (case err of
                   None \<Rightarrow> consumer\<lparr>numberOfSuccessfullyConsumedMessages :=
                                      numberOfSuccessfullyConsumedMessages consumer + 1\<rparr>
                 | Some e \<Rightarrow> consumer\<lparr>numberOfErrorsConsumingMessages :=
                                      numberOfErrorsConsumingMessages consumer + 1\<rparr>, w')
          \<and> steps (trace w') = steps (trace w3)
          \<and> logged_lengths (trace w') = logged_lengths (trace w3)
          \<and> chans w' = chans w3 \<and> ctxs w' = ctxs w3"
  using assms(2) unfolding w1_def
  by (cases err) (simp_all add: HandleMessage_with_def split_def Let_def steps_def logged_lengths_def)

lemma HandleMessage_with_panics:
  fixes m w
  defines "w1 \<equiv> emit InfoLevel
                     [Int64F offsetKey (Offset m), Int32F partitionKey (Partition m),
                      StrF topicKey (msg_Topic m), TimeF ''message_timestamp'' (Timestamp m)]
                     (Msg ''Started processing message'') w"
  assumes "process consumer (Some m) (snd (time_Now w1)) = Inl p"
  shows "HandleMessage_with process consumer (Some m) w = Inl p"
  using assms(2) unfolding w1_def
  by (simp add: HandleMessage_with_def split_def Let_def)

lemma HandleMessage_with_None:
  "HandleMessage_with process consumer None w = Inr (consumer, emit ErrorLevel [] (Msg ''nil message'') w)"
  by (simp add: HandleMessage_with_def)

subsection \<open>The claim loop with a processing step that fails on chosen messages\<close>

lemma HandleMessage_with_induced:
  assumes "\<And>c m w. \<exists>w'. process c (Some m) w = Inr (induced m, w')"
  shows "\<exists>w'. HandleMessage_with process consumer (Some m) w =
            Inr (case induced m of
                   None \<Rightarrow> consumer\<lparr>numberOfSuccessfullyConsumedMessages :=
                                      numberOfSuccessfullyConsumedMessages consumer + 1\<rparr>
                 | Some e \<Rightarrow> consumer\<lparr>numberOfErrorsConsumingMessages :=
                                      numberOfErrorsConsumingMessages consumer + 1\<rparr>, w')"
proof -
  let ?w1 = "emit InfoLevel
               [Int64F offsetKey (Offset m), Int32F partitionKey (Partition m),
                StrF topicKey (msg_Topic m), TimeF ''message_timestamp'' (Timestamp m)]
               (Msg ''Started processing message'') w"
  from assms obtain w3 where "process consumer (Some m) (snd (time_Now ?w1)) = Inr (induced m, w3)"
    by blast
  from HandleMessage_with_Some [where process = process and err = "induced m", OF this]
  show ?thesis by blast
qed

lemma claim_loop_induced:
  assumes "\<And>c m w. \<exists>w'. process c (Some m) w = Inr (induced m, w')"
  shows "\<exists>w'. claim_loop process session consumer w (map Some ms) =
            Inr (consumer\<lparr>numberOfSuccessfullyConsumedMessages :=
                            numberOfSuccessfullyConsumedMessages consumer
                            + of_nat (length (filter (\<lambda>m. induced m = None) ms)),
                          numberOfErrorsConsumingMessages :=
                            numberOfErrorsConsumingMessages consumer
                            + of_nat (length (filter (\<lambda>m. induced m \<noteq> None) ms))\<rparr>, w')"
proof (induction ms arbitrary: consumer w)
  case Nil
  show ?case by simp
next
  case (Cons m ms)
  from HandleMessage_with_induced [where process = process and induced = induced, OF assms, of consumer m w]
  obtain w1 where h: "HandleMessage_with process consumer (Some m) w =
            Inr (case induced m of
                   None \<Rightarrow> consumer\<lparr>numberOfSuccessfullyConsumedMessages :=
                                      numberOfSuccessfullyConsumedMessages consumer + 1\<rparr>
                 | Some e \<Rightarrow> consumer\<lparr>numberOfErrorsConsumingMessages :=
                                      numberOfErrorsConsumingMessages consumer + 1\<rparr>, w1)"
    by blast
  show ?case
  proof (cases "induced m")
    case None
    from Cons.IH [of "consumer\<lparr>numberOfSuccessfullyConsumedMessages :=
                                      numberOfSuccessfullyConsumedMessages consumer + 1\<rparr>"
                    "call (MarkMessage session (Some m) []) w1"]
    show ?thesis using h None by (simp add: add.assoc)
  next
    case (Some e)
    from Cons.IH [of "consumer\<lparr>numberOfErrorsConsumingMessages :=
                                      numberOfErrorsConsumingMessages consumer + 1\<rparr>"
                    "call (MarkMessage session (Some m) []) w1"]
    show ?thesis using h Some by (simp add: add.assoc)
  qed
qed


subsection \<open>The claim loop of the source, and generations that end in a rebalance\<close>

lemma ProcessMessage_Some:
  "ProcessMessage consumer (Some m) w =
     Inr (None,
          if Verbose consumer
          then emit InfoLevel [StrF ''content'' (Value m)] (Msg ''Message value'')
                 (emit InfoLevel [IntF ''length'' (int (length (Value m)))] (Msg ''Message length'') w)
          else emit InfoLevel [IntF ''length'' (int (length (Value m)))] (Msg ''Message length'') w)"
  by (simp add: ProcessMessage_def Let_def)

lemma HandleMessage_real:
  "\<exists>w'. HandleMessage_with ProcessMessage consumer (Some m) w =
           Inr (consumer\<lparr>numberOfSuccessfullyConsumedMessages :=
                           numberOfSuccessfullyConsumedMessages consumer + 1\<rparr>, w')
        \<and> logged_lengths (trace w') = logged_lengths (trace w) @ [int (length (Value m))]
        \<and> chans w' = chans w \<and> ctxs w' = ctxs w"
proof -
  let ?w1 = "emit InfoLevel
               [Int64F offsetKey (Offset m), Int32F partitionKey (Partition m),
                StrF topicKey (msg_Topic m), TimeF ''message_timestamp'' (Timestamp m)]
               (Msg ''Started processing message'') w"
  obtain w3 where p: "ProcessMessage consumer (Some m) (snd (time_Now ?w1)) = Inr (None, w3)"
    and l: "logged_lengths (trace w3) = logged_lengths (trace w) @ [int (length (Value m))]"
    and c: "chans w3 = chans w" "ctxs w3 = ctxs w"
    by (simp add: ProcessMessage_Some logged_lengths_def)
  from HandleMessage_with_Some [where process = ProcessMessage and err = None, OF p] l c
  show ?thesis by auto
qed

lemma claim_loop_real:
  "\<exists>w'. claim_loop ProcessMessage session consumer w msgs =
           Inr (consumer\<lparr>numberOfSuccessfullyConsumedMessages :=
                           numberOfSuccessfullyConsumedMessages consumer + of_nat (non_nil msgs)\<rparr>, w')
        \<and> logged_lengths (trace w') =
            logged_lengths (trace w)
            @ concat (map (\<lambda>msg. case msg of None \<Rightarrow> [] | Some m \<Rightarrow> [int (length (Value m))]) msgs)
        \<and> chans w' = chans w \<and> ctxs w' = ctxs w"
proof (induction msgs arbitrary: consumer w)
  case Nil
  show ?case by (simp add: non_nil_def)
next
  case (Cons msg msgs)
  show ?case
  proof (cases msg)
    case None
    from Cons.IH [of consumer
        "call (MarkMessage session None []) (emit ErrorLevel [] (Msg ''nil message'') w)"]
    show ?thesis using None
      by (auto simp add: HandleMessage_with_None non_nil_def logged_lengths_def)
  next
    case (Some m)
    from HandleMessage_real [of consumer m w]
    obtain w1 where h: "HandleMessage_with ProcessMessage consumer (Some m) w =
           Inr (consumer\<lparr>numberOfSuccessfullyConsumedMessages :=
                           numberOfSuccessfullyConsumedMessages consumer + 1\<rparr>, w1)"
      and l: "logged_lengths (trace w1) = logged_lengths (trace w) @ [int (length (Value m))]"
      and c: "chans w1 = chans w" "ctxs w1 = ctxs w"
      by blast
    from Cons.IH [of "consumer\<lparr>numberOfSuccessfullyConsumedMessages :=
                           numberOfSuccessfullyConsumedMessages consumer + 1\<rparr>"
        "call (MarkMessage session (Some m) []) w1"]
    show ?thesis using Some h l c
      by (auto simp add: non_nil_def logged_lengths_def add.assoc)
  qed
qed

lemma perform_all_with_append:
  "perform_all_with process (as @ bs) consumer w =
     (case perform_all_with process as consumer w of
        Inl p \<Rightarrow> Inl p
      | Inr (consumer', w') \<Rightarrow> perform_all_with process bs consumer' w')"
  by (induction as arbitrary: consumer w) (auto split: sum.split)

lemma perform_claims_real:
  "\<exists>w'. perform_all_with ProcessMessage (map (CallConsumeClaim session) claims) consumer w =
           Inr (consumer\<lparr>numberOfSuccessfullyConsumedMessages :=
                           numberOfSuccessfullyConsumedMessages consumer
                           + of_nat (sum_list (map (\<lambda>claim. non_nil (Messages claim)) claims))\<rparr>, w')
        \<and> chans w' = chans w \<and> ctxs w' = ctxs w"
proof (induction claims arbitrary: consumer w)
  case Nil
  show ?case by simp
next
  case (Cons claim claims)
  let ?w0 = "emit InfoLevel [Int64F offsetKey (InitialOffset claim)] (Msg ''Starting messages loop'') w"
  from claim_loop_real [of session consumer ?w0 "Messages claim"]
  obtain w1 where h: "claim_loop ProcessMessage session consumer ?w0 (Messages claim) =
           Inr (consumer\<lparr>numberOfSuccessfullyConsumedMessages :=
                  numberOfSuccessfullyConsumedMessages consumer + of_nat (non_nil (Messages claim))\<rparr>, w1)"
    and c: "chans w1 = chans w" "ctxs w1 = ctxs w"
    by auto
  from Cons.IH [of "consumer\<lparr>numberOfSuccessfullyConsumedMessages :=
                  numberOfSuccessfullyConsumedMessages consumer + of_nat (non_nil (Messages claim))\<rparr>" w1]
  show ?case using h c
    by (auto simp add: ConsumeClaim_with_def add.assoc)
qed

lemma perform_rebalance_real:
  assumes "Ready consumer = Some r" "r < length (chans w)" "chans w ! r = ChanOpen"
  shows "\<exists>w'. perform_all_with ProcessMessage (activities (rebalance session claims)) consumer w =
           Inr (consumer\<lparr>numberOfSuccessfullyConsumedMessages :=
                           numberOfSuccessfullyConsumedMessages consumer
                           + of_nat (sum_list (map (\<lambda>claim. non_nil (Messages claim)) claims))\<rparr>, w')
        \<and> chans w' = (chans w)[r := ChanClosed] \<and> ctxs w' = ctxs w"
proof -
  let ?w0 = "(emit InfoLevel [] (Msg ''New session has been setup'') w)\<lparr>chans := (chans w)[r := ChanClosed]\<rparr>"
  have s: "Setup consumer w = Inr (None, ?w0)"
    using assms by (simp add: Setup_def close_chan_def)
  from perform_claims_real [of session claims consumer ?w0]
  obtain w1 where h: "perform_all_with ProcessMessage (map (CallConsumeClaim session) claims) consumer ?w0 =
           Inr (consumer\<lparr>numberOfSuccessfullyConsumedMessages :=
                           numberOfSuccessfullyConsumedMessages consumer
                           + of_nat (sum_list (map (\<lambda>claim. non_nil (Messages claim)) claims))\<rparr>, w1)"
    and c: "chans w1 = (chans w)[r := ChanClosed]" "ctxs w1 = ctxs w"
    by auto
  show ?thesis
    using s h c by (simp add: rebalance_def perform_all_with_append Cleanup_def)
qed

lemma Serve_loop_rebalances:
  assumes "ConsumerGroup consumer = Some g" "Ready consumer = Some r"
    "r < length (chans w)" "chans w ! r = ChanOpen" "ctx_Err ctx w = None"
  shows "\<exists>consumer' w'.
           Serve_loop_with ProcessMessage ctx (map (\<lambda>(session, claims). rebalance session claims) gs) consumer w =
             Blocked consumer' w'
         \<and> numberOfSuccessfullyConsumedMessages consumer' =
             numberOfSuccessfullyConsumedMessages consumer
             + of_nat (sum_list (map (\<lambda>(session, claims).
                                       sum_list (map (\<lambda>claim. non_nil (Messages claim)) claims)) gs))
         \<and> numberOfErrorsConsumingMessages consumer' = numberOfErrorsConsumingMessages consumer"
  using assms
proof (induction gs arbitrary: consumer w r)
  case Nil
  then show ?case by simp
next
  case (Cons sc gs)
  obtain session claims where sc: "sc = (session, claims)" by (cases sc)
  let ?n = "sum_list (map (\<lambda>claim. non_nil (Messages claim)) claims)"
  let ?w0 = "call (ConsumerGroup_Consume g ctx [Topic (Configuration consumer)]) w"
  let ?c1 = "consumer\<lparr>numberOfSuccessfullyConsumedMessages :=
                           numberOfSuccessfullyConsumedMessages consumer + of_nat ?n\<rparr>"
  from perform_rebalance_real [of consumer r ?w0 session claims] Cons.prems
  obtain w1 where h: "perform_all_with ProcessMessage (activities (rebalance session claims)) consumer ?w0 =
           Inr (?c1, w1)"
    and c: "chans w1 = (chans w)[r := ChanClosed]" "ctxs w1 = ctxs w"
    by auto
  let ?w2 = "(emit InfoLevel [] (Msg ''Created new kafka session'') w1)\<lparr>chans := chans w1 @ [ChanOpen]\<rparr>"
  let ?c2 = "?c1\<lparr>Ready := Some (length (chans w1))\<rparr>"
  have e: "ctx_Err ctx w1 = None" "ctx_Err ctx ?w2 = None"
    using Cons.prems(5) c by (simp_all add: ctx_Err_def)
  have step: "Serve_loop_with ProcessMessage ctx (map (\<lambda>(session, claims). rebalance session claims) (sc # gs)) consumer w =
      Serve_loop_with ProcessMessage ctx (map (\<lambda>(session, claims). rebalance session claims) gs) ?c2 ?w2"
    using sc Cons.prems(1) h e(1) by (simp add: make_chan_def rebalance_def)
  from Cons.IH [of ?c2 "length (chans w1)" ?w2] Cons.prems(1) e(2)
  show ?case unfolding step using sc by (auto simp add: add.assoc)
qed

lemma NewWithSaramaConfig_created:
  assumes "new_group [Address brokerCfg] (Group brokerCfg)
             (case saramaConfig of None \<Rightarrow> dflt\<lparr>Version := V0_10_2_0\<rparr> | Some cfg \<Rightarrow> cfg) = None"
  shows "\<exists>w'. NewWithSaramaConfig dflt new_group brokerCfg saramaConfig verbose w =
           (Inr \<lparr>Configuration = brokerCfg, ConsumerGroup = Some (groups w),
                 numberOfSuccessfullyConsumedMessages = 0, numberOfErrorsConsumingMessages = 0,
                 Verbose = verbose, Ready = Some (length (chans w)), Cancel = None\<rparr>, w')
         \<and> chans w' = chans w @ [ChanOpen] \<and> ctxs w' = ctxs w
         \<and> logged_lengths (trace w') = logged_lengths (trace w)
         \<and> steps (trace w') = steps (trace w)"
  using assms
  by (simp add: NewWithSaramaConfig_def Let_def make_chan_def logged_lengths_def steps_def)

subsection \<open>Claim loops that run at the same time\<close>

















subsection \<open>Increments that overlap\<close>

text \<open>A read and the write that follows it, with no other goroutine in between, are the
  increment of \<^verbatim>\<open>HandleMessage\<close>.\<close>

lemma racy_success_alone:
  "racy_success [ReadCounter g, WriteCounter g] regs consumer =
     consumer\<lparr>numberOfSuccessfullyConsumedMessages :=
                 numberOfSuccessfullyConsumedMessages consumer + 1\<rparr>"
  by simp


subsection \<open>Every message is handled, then marked\<close>

lemma HandleMessage_with_steps:
  assumes "\<And>c m w. \<exists>err w'. process c (Some m) w = Inr (err, w') \<and> steps (trace w') = steps (trace w)"
  shows "\<exists>consumer' w'. HandleMessage_with process consumer msg w = Inr (consumer', w')
           \<and> steps (trace w') = steps (trace w) @ [entered msg]"
proof (cases msg)
  case None
  then show ?thesis
    by (simp add: HandleMessage_with_None steps_def entered_def)
next
  case (Some m)
  let ?w1 = "emit InfoLevel
               [Int64F offsetKey (Offset m), Int32F partitionKey (Partition m),
                StrF topicKey (msg_Topic m), TimeF ''message_timestamp'' (Timestamp m)]
               (Msg ''Started processing message'') w"
  from assms [of consumer m "snd (time_Now ?w1)"]
  obtain err w3 where p: "process consumer (Some m) (snd (time_Now ?w1)) = Inr (err, w3)"
    and s: "steps (trace w3) = steps (trace (snd (time_Now ?w1)))"
    by blast
  from HandleMessage_with_Some [where process = process and err = err, OF p]
  show ?thesis using Some s by (auto simp add: steps_def entered_def)
qed

lemma claim_loop_steps:
  assumes "\<And>c m w. \<exists>err w'. process c (Some m) w = Inr (err, w') \<and> steps (trace w') = steps (trace w)"
  shows "\<exists>consumer' w'. claim_loop process session consumer w msgs = Inr (consumer', w')
           \<and> steps (trace w') =
               steps (trace w) @ concat (map (\<lambda>msg. [entered msg, Marked session msg []]) msgs)"
proof (induction msgs arbitrary: consumer w)
  case Nil
  show ?case by simp
next
  case (Cons msg msgs)
  from HandleMessage_with_steps [where process = process, OF assms, of consumer msg w]
  obtain c1 w1 where h: "HandleMessage_with process consumer msg w = Inr (c1, w1)"
    and s: "steps (trace w1) = steps (trace w) @ [entered msg]"
    by blast
  from Cons.IH [of c1 "call (MarkMessage session msg []) w1"]
  show ?case using h s by (auto simp add: steps_def)
qed

text \<open>
  Claim C2. Whatever the processing step answers on a message, an error as well as nil
  (provided it returns and is not itself seen entering the handler or marking a message),
  \<^verbatim>\<open>ConsumeClaim\<close> returns nil, and what it is seen doing is, for each message the claim
  yields and in the order of the claim: \<^verbatim>\<open>HandleMessage\<close> is entered for the message, then
  the message is marked on the session, once, with empty metadata. The same holds of
  \<^verbatim>\<open>ConsumeClaim\<close> with the \<^verbatim>\<open>ProcessMessage\<close> of the source, with no proviso.
\<close>

theorem ConsumeClaim_marks_every_message:
  assumes "\<And>c m w. \<exists>err w'. process c (Some m) w = Inr (err, w') \<and> steps (trace w') = steps (trace w)"
  shows "(\<exists>consumer' w'.
            ConsumeClaim_with process consumer session claim w = Inr (None, consumer', w')
          \<and> steps (trace w') =
              steps (trace w)
              @ concat (map (\<lambda>msg. [entered msg, Marked session msg '''']) (Messages claim)))
       \<and> (\<exists>consumer' w'.
            ConsumeClaim consumer session claim w = Inr (None, consumer', w')
          \<and> steps (trace w') =
              steps (trace w)
              @ concat (map (\<lambda>msg. [entered msg, Marked session msg '''']) (Messages claim)))"
proof -
  let ?w0 = "emit InfoLevel [Int64F offsetKey (InitialOffset claim)] (Msg ''Starting messages loop'') w"
  have source: "\<And>c m w. \<exists>err w'. ProcessMessage c (Some m) w = Inr (err, w')
      \<and> steps (trace w') = steps (trace w)"
    by (simp add: ProcessMessage_Some steps_def)
  from claim_loop_steps [where process = process, OF assms, of session consumer ?w0 "Messages claim"]
  have stubbed: "\<exists>consumer' w'.
            ConsumeClaim_with process consumer session claim w = Inr (None, consumer', w')
          \<and> steps (trace w') =
              steps (trace w)
              @ concat (map (\<lambda>msg. [entered msg, Marked session msg '''']) (Messages claim))"
    by (auto simp add: ConsumeClaim_with_def steps_def)
  from claim_loop_steps [where process = ProcessMessage, OF source, of session consumer ?w0 "Messages claim"]
  have "\<exists>consumer' w'.
            ConsumeClaim consumer session claim w = Inr (None, consumer', w')
          \<and> steps (trace w') =
              steps (trace w)
              @ concat (map (\<lambda>msg. [entered msg, Marked session msg '''']) (Messages claim))"
    by (auto simp add: ConsumeClaim_def ConsumeClaim_with_def steps_def)
  with stubbed show ?thesis by blast
qed

text \<open>The theorem at a step that always fails, for one message and a new consumer: the
  message is entered and marked once, the success counter stays 0 and the error counter
  becomes 1.\<close>

theorem ConsumeClaim_marks_every_message_witness:
  "(\<forall>c m w. \<exists>err w'.
      (\<lambda>c msg w. Inr (Some (LibraryError ''stubbed''), w)) c (Some m) w = Inr (err, w')
      \<and> steps (trace w') = steps (trace w))
   \<and> (\<exists>consumer' w'.
         ConsumeClaim_with (\<lambda>c msg w. Inr (Some (LibraryError ''stubbed''), w))
           \<lparr>Configuration = \<lparr>Address = ''kafka:9092'', Topic = ''ccx'', Group = ''g1'', Timeout = 0\<rparr>,
            ConsumerGroup = Some 0,
            numberOfSuccessfullyConsumedMessages = 0,
            numberOfErrorsConsumingMessages = 0,
            Verbose = False, Ready = Some 0, Cancel = None\<rparr>
           7
           \<lparr>InitialOffset = 5,
            Messages = [Some \<lparr>Timestamp = 0, Value = ''a'', msg_Topic = ''ccx'', Partition = 3, Offset = 5\<rparr>]\<rparr>
           (initial_world (\<lambda>n. int n))
         = Inr (None, consumer', w')
       \<and> steps (trace w') =
           [Entered [Int64F ''offset'' 5, Int32F ''partition'' 3, StrF ''topic'' ''ccx'',
                     TimeF ''message_timestamp'' 0],
            Marked 7 (Some \<lparr>Timestamp = 0, Value = ''a'', msg_Topic = ''ccx'', Partition = 3, Offset = 5\<rparr>) '''']
       \<and> GetNumberOfSuccessfullyConsumedMessages consumer' = 0
       \<and> GetNumberOfErrorsConsumingMessages consumer' = 1)"
proof -
  let ?stub = "\<lambda>(c :: KafkaConsumer) (msg :: ConsumerMessage option) (w :: world).
      (Inr (Some (LibraryError ''stubbed''), w) :: go_panic + (go_error option \<times> world))"
  let ?c0 = "\<lparr>Configuration = \<lparr>Address = ''kafka:9092'', Topic = ''ccx'', Group = ''g1'', Timeout = 0\<rparr>,
            ConsumerGroup = Some 0,
            numberOfSuccessfullyConsumedMessages = 0,
            numberOfErrorsConsumingMessages = 0,
            Verbose = False, Ready = Some 0, Cancel = None\<rparr>"
  let ?m = "\<lparr>Timestamp = 0, Value = ''a'', msg_Topic = ''ccx'', Partition = 3, Offset = 5\<rparr>"
  let ?cl = "\<lparr>InitialOffset = 5, Messages = [Some ?m]\<rparr>"
  let ?w = "initial_world (\<lambda>n. int n)"
  have h: "\<And>c m w. \<exists>err w'. ?stub c (Some m) w = Inr (err, w') \<and> steps (trace w') = steps (trace w)"
    by simp
  have i: "\<And>c m w. \<exists>w'. ?stub c (Some m) w = Inr ((\<lambda>m. Some (LibraryError ''stubbed'')) m, w')"
    by simp
  from claim_loop_induced [where process = ?stub and induced = "\<lambda>m. Some (LibraryError ''stubbed'')",
      OF i, of 7 ?c0 "emit InfoLevel [Int64F offsetKey (InitialOffset ?cl)] (Msg ''Starting messages loop'') ?w" "[?m]"]
  have k: "\<exists>w'. ConsumeClaim_with ?stub ?c0 7 ?cl ?w =
      Inr (None, ?c0\<lparr>numberOfErrorsConsumingMessages := 1\<rparr>, w')"
    by (auto simp add: ConsumeClaim_with_def)
  from ConsumeClaim_marks_every_message [where process = ?stub, OF h, of ?c0 7 ?cl ?w] k
  show ?thesis
    by (auto simp add: initial_world_def steps_def entered_def offsetKey_def partitionKey_def topicKey_def
        GetNumberOfSuccessfullyConsumedMessages_def GetNumberOfErrorsConsumingMessages_def)
qed

subsection \<open>Processing a message\<close>

text \<open>
  Claim C9. On a message that is not nil \<^verbatim>\<open>ProcessMessage\<close> returns nil and logs the length
  of the payload; it logs the payload as text as well exactly when the consumer is verbose.
  So a claim of messages that are not nil logs their payload lengths in order and counts
  each as a success. For the payloads \<^verbatim>\<open>a\<close>, the empty one and \<^verbatim>\<open>abc\<close>, given to a new
  consumer for topic \<^verbatim>\<open>ccx\<close> and group \<^verbatim>\<open>g1\<close>, the lengths logged are 1, 0, 3, the
  success counter is 3 and the error counter 0.
\<close>

theorem ProcessMessage_logs_length:
  "ProcessMessage (consumer\<lparr>Verbose := False\<rparr>) (Some m) w =
     Inr (None, w\<lparr>trace := trace w @
        [Logged InfoLevel [IntF ''length'' (int (length (Value m)))] (Msg ''Message length'')]\<rparr>)
   \<and> ProcessMessage (consumer\<lparr>Verbose := True\<rparr>) (Some m) w =
     Inr (None, w\<lparr>trace := trace w @
        [Logged InfoLevel [IntF ''length'' (int (length (Value m)))] (Msg ''Message length''),
         Logged InfoLevel [StrF ''content'' (Value m)] (Msg ''Message value'')]\<rparr>)
   \<and> (\<exists>consumer' w'.
         ConsumeClaim consumer session (claim\<lparr>Messages := map Some ms\<rparr>) w = Inr (None, consumer', w')
         \<and> logged_lengths (trace w') = logged_lengths (trace w) @ map (\<lambda>m. int (length (Value m))) ms
         \<and> GetNumberOfSuccessfullyConsumedMessages consumer' =
             GetNumberOfSuccessfullyConsumedMessages consumer + of_nat (length ms)
         \<and> GetNumberOfErrorsConsumingMessages consumer' = GetNumberOfErrorsConsumingMessages consumer)
   \<and> (case NewWithSaramaConfig dflt (\<lambda>addrs group cfg. None)
              \<lparr>Address = addr, Topic = ''ccx'', Group = ''g1'', Timeout = t\<rparr> saramaConfig verbose
              (initial_world clock) of
         (Inl err, w0) \<Rightarrow> False
       | (Inr consumer0, w0) \<Rightarrow>
           (case ConsumeClaim consumer0 session
                   \<lparr>InitialOffset = off,
                    Messages = [Some (m1\<lparr>Value := ''a''\<rparr>), Some (m2\<lparr>Value := ''''\<rparr>),
                                Some (m3\<lparr>Value := ''abc''\<rparr>)]\<rparr> w0 of
              Inl p \<Rightarrow> False
            | Inr (err, consumer', w') \<Rightarrow>
                err = None
                \<and> logged_lengths (trace w') = [1, 0, 3]
                \<and> GetNumberOfSuccessfullyConsumedMessages consumer' = 3
                \<and> GetNumberOfErrorsConsumingMessages consumer' = 0))"
proof -
  have general: "\<exists>consumer' w'.
         ConsumeClaim consumer session (claim\<lparr>Messages := msgs\<rparr>) w = Inr (None, consumer', w')
         \<and> logged_lengths (trace w') =
             logged_lengths (trace w)
             @ concat (map (\<lambda>msg. case msg of None \<Rightarrow> [] | Some m \<Rightarrow> [int (length (Value m))]) msgs)
         \<and> numberOfSuccessfullyConsumedMessages consumer' =
             numberOfSuccessfullyConsumedMessages consumer + of_nat (non_nil msgs)
         \<and> numberOfErrorsConsumingMessages consumer' = numberOfErrorsConsumingMessages consumer"
    for consumer session claim msgs w
    using claim_loop_real [of session consumer
        "emit InfoLevel [Int64F offsetKey (InitialOffset claim)] (Msg ''Starting messages loop'') w" msgs]
    by (auto simp add: ConsumeClaim_def ConsumeClaim_with_def logged_lengths_def)
  have some: "concat (map (case_option [] (\<lambda>m. [int (length (Value m))]) \<circ> Some) ms)
      = map (\<lambda>m. int (length (Value m))) ms" for ms :: "ConsumerMessage list"
    by (induction ms) simp_all
  have third: "\<exists>consumer' w'.
         ConsumeClaim consumer session (claim\<lparr>Messages := map Some ms\<rparr>) w = Inr (None, consumer', w')
         \<and> logged_lengths (trace w') = logged_lengths (trace w) @ map (\<lambda>m. int (length (Value m))) ms
         \<and> GetNumberOfSuccessfullyConsumedMessages consumer' =
             GetNumberOfSuccessfullyConsumedMessages consumer + of_nat (length ms)
         \<and> GetNumberOfErrorsConsumingMessages consumer' = GetNumberOfErrorsConsumingMessages consumer"
    using general [where consumer = consumer and session = session and claim = claim
        and msgs = "map Some ms" and w = w]
    by (simp add: some non_nil_def GetNumberOfSuccessfullyConsumedMessages_def
        GetNumberOfErrorsConsumingMessages_def)
  let ?cfg = "\<lparr>Address = addr, Topic = ''ccx'', Group = ''g1'', Timeout = t\<rparr>"
  let ?w = "initial_world clock"
  from NewWithSaramaConfig_created [where new_group = "\<lambda>addrs group cfg. None" and dflt = dflt
      and brokerCfg = ?cfg and saramaConfig = saramaConfig and verbose = verbose and w = ?w]
  obtain w0 where n: "NewWithSaramaConfig dflt (\<lambda>addrs group cfg. None) ?cfg saramaConfig verbose ?w =
           (Inr \<lparr>Configuration = ?cfg, ConsumerGroup = Some (groups ?w),
                 numberOfSuccessfullyConsumedMessages = 0, numberOfErrorsConsumingMessages = 0,
                 Verbose = verbose, Ready = Some (length (chans ?w)), Cancel = None\<rparr>, w0)"
    and l: "logged_lengths (trace w0) = []"
    by (auto simp add: initial_world_def logged_lengths_def)
  let ?c0 = "\<lparr>Configuration = ?cfg, ConsumerGroup = Some (groups ?w),
                 numberOfSuccessfullyConsumedMessages = 0, numberOfErrorsConsumingMessages = 0,
                 Verbose = verbose, Ready = Some (length (chans ?w)), Cancel = None\<rparr>"
  from general [where consumer = ?c0 and session = session
      and claim = "\<lparr>InitialOffset = off, Messages = []\<rparr>"
      and msgs = "[Some (m1\<lparr>Value := ''a''\<rparr>), Some (m2\<lparr>Value := ''''\<rparr>), Some (m3\<lparr>Value := ''abc''\<rparr>)]"
      and w = w0] l
  have fourth: "\<exists>consumer' w'.
         ConsumeClaim ?c0 session
           \<lparr>InitialOffset = off,
            Messages = [Some (m1\<lparr>Value := ''a''\<rparr>), Some (m2\<lparr>Value := ''''\<rparr>),
                        Some (m3\<lparr>Value := ''abc''\<rparr>)]\<rparr> w0 = Inr (None, consumer', w')
         \<and> logged_lengths (trace w') = [1, 0, 3]
         \<and> numberOfSuccessfullyConsumedMessages consumer' = 3
         \<and> numberOfErrorsConsumingMessages consumer' = 0"
    by (simp add: non_nil_def)
  have first: "ProcessMessage (consumer\<lparr>Verbose := False\<rparr>) (Some m) w =
     Inr (None, w\<lparr>trace := trace w @
        [Logged InfoLevel [IntF ''length'' (int (length (Value m)))] (Msg ''Message length'')]\<rparr>)"
    by (simp add: ProcessMessage_def emit_def Let_def)
  have second: "ProcessMessage (consumer\<lparr>Verbose := True\<rparr>) (Some m) w =
     Inr (None, w\<lparr>trace := trace w @
        [Logged InfoLevel [IntF ''length'' (int (length (Value m)))] (Msg ''Message length''),
         Logged InfoLevel [StrF ''content'' (Value m)] (Msg ''Message value'')]\<rparr>)"
    by (simp add: ProcessMessage_def emit_def Let_def)
  from fourth n have last: "(case NewWithSaramaConfig dflt (\<lambda>addrs group cfg. None) ?cfg saramaConfig verbose ?w of
         (Inl err, w0) \<Rightarrow> False
       | (Inr consumer0, w0) \<Rightarrow>
           (case ConsumeClaim consumer0 session
                   \<lparr>InitialOffset = off,
                    Messages = [Some (m1\<lparr>Value := ''a''\<rparr>), Some (m2\<lparr>Value := ''''\<rparr>),
                                Some (m3\<lparr>Value := ''abc''\<rparr>)]\<rparr> w0 of
              Inl p \<Rightarrow> False
            | Inr (err, consumer', w') \<Rightarrow>
                err = None
                \<and> logged_lengths (trace w') = [1, 0, 3]
                \<and> GetNumberOfSuccessfullyConsumedMessages consumer' = 3
                \<and> GetNumberOfErrorsConsumingMessages consumer' = 0))"
    by (auto simp add: GetNumberOfSuccessfullyConsumedMessages_def GetNumberOfErrorsConsumingMessages_def)
  from first second third last show ?thesis by blast
qed

subsection \<open>The session driver\<close>

lemma ctx_Err_emit [simp]: "ctx_Err ctx (emit lvl fs txt w) = ctx_Err ctx w"
  and ctx_Err_call [simp]: "ctx_Err ctx (call c w) = ctx_Err ctx w"
  by (simp_all add: ctx_Err_def)

lemma ctx_Err_Some: "ctx_Err ctx w = Some e \<Longrightarrow> e = ContextCanceled"
  by (simp add: ctx_Err_def split: if_splits)

lemma Serve_loop_with_Stopped:
  "Serve_loop_with process ctx gens consumer w = Stopped consumer' w' \<Longrightarrow>
     ctx_Err ctx w' = Some ContextCanceled"
proof (induction gens arbitrary: consumer w)
  case Nil
  then show ?case by (simp split: option.splits)
next
  case (Cons gen gens)
  from Cons.prems obtain g where g: "ConsumerGroup consumer = Some g"
    by (cases "ConsumerGroup consumer") simp_all
  let ?w0 = "call (ConsumerGroup_Consume g ctx [Topic (Configuration consumer)]) w"
  from Cons.prems g obtain c1 w1 where
    p: "perform_all_with process (activities gen) consumer ?w0 = Inr (c1, w1)"
    by (cases "perform_all_with process (activities gen) consumer ?w0") auto
  from Cons.prems g p have r: "returned gen = None"
    by (cases "returned gen") simp_all
  show ?case
  proof (cases "ctx_Err ctx w1")
    case None
    with Cons.prems g p r have
      "Serve_loop_with process ctx gens (c1\<lparr>Ready := Some (length (chans w1))\<rparr>)
         ((emit InfoLevel [] (Msg ''Created new kafka session'') w1)\<lparr>chans := chans w1 @ [ChanOpen]\<rparr>)
       = Stopped consumer' w'"
      by (simp add: make_chan_def)
    then show ?thesis by (rule Cons.IH)
  next
    case (Some e)
    with Cons.prems g p r show ?thesis
      using ctx_Err_Some [OF Some] by auto
  qed
qed

lemma Serve_loop_with_Halted:
  "Serve_loop_with process ctx gens consumer w = Halted w' \<Longrightarrow>
     \<exists>gen \<in> set gens. \<exists>err es. returned gen = Some err \<and>
        trace w' = es @ [Logged FatalLevel [ErrF err] (Msg ''Unable to recreate Kafka session''),
                         Called (os_Exit 1)]"
proof (induction gens arbitrary: consumer w)
  case Nil
  then show ?case by (simp split: option.splits)
next
  case (Cons gen gens)
  from Cons.prems obtain g where g: "ConsumerGroup consumer = Some g"
    by (cases "ConsumerGroup consumer") simp_all
  let ?w0 = "call (ConsumerGroup_Consume g ctx [Topic (Configuration consumer)]) w"
  from Cons.prems g obtain c1 w1 where
    p: "perform_all_with process (activities gen) consumer ?w0 = Inr (c1, w1)"
    by (cases "perform_all_with process (activities gen) consumer ?w0") auto
  show ?case
  proof (cases "returned gen")
    case (Some err)
    with Cons.prems g p have "trace w' = trace w1 @
        [Logged FatalLevel [ErrF err] (Msg ''Unable to recreate Kafka session''), Called (os_Exit 1)]"
      by auto
    with Some show ?thesis by auto
  next
    case None
    show ?thesis
    proof (cases "ctx_Err ctx w1")
      case (Some e)
      with Cons.prems g p None show ?thesis by simp
    next
      case n: None
      with Cons.prems g p None have
        "Serve_loop_with process ctx gens (c1\<lparr>Ready := Some (length (chans w1))\<rparr>)
           ((emit InfoLevel [] (Msg ''Created new kafka session'') w1)\<lparr>chans := chans w1 @ [ChanOpen]\<rparr>)
         = Halted w'"
        by (simp add: make_chan_def)
      from Cons.IH [OF this] show ?thesis by auto
    qed
  qed
qed

text \<open>
  Claim C6, as amended. When \<^verbatim>\<open>Consume\<close> returns an error, whatever the error and whether
  or not the context has been cancelled meanwhile, the driver logs it at fatal level and
  the process exits: the generations that would follow are never reached, no further call
  of \<^verbatim>\<open>Consume\<close> is made. The driver halts in no other way: when it has halted, some
  call of \<^verbatim>\<open>Consume\<close> returned an error, and the fatal line and the exit are the last
  two events.
\<close>

theorem Serve_loop_error_is_fatal:
  "(ConsumerGroup consumer = Some g
      \<and> perform_all_with process (activities gen) consumer
            (call (ConsumerGroup_Consume g ctx [Topic (Configuration consumer)]) w) = Inr (consumer1, w1)
      \<and> returned gen = Some err
    \<longrightarrow> Serve_loop_with process ctx (gen # gens) consumer w =
          Halted (call (os_Exit 1)
                    (emit FatalLevel [ErrF err] (Msg ''Unable to recreate Kafka session'') w1)))
   \<and> (Serve_loop_with process ctx gens consumer w = Halted w'
    \<longrightarrow> (\<exists>gen \<in> set gens. \<exists>err es. returned gen = Some err \<and>
          trace w' = es @ [Logged FatalLevel [ErrF err] (Msg ''Unable to recreate Kafka session''),
                           Called (os_Exit 1)]))"
  using Serve_loop_with_Halted [of process ctx gens consumer w w'] by simp

text \<open>The theorem at a driver whose first call of \<^verbatim>\<open>Consume\<close> sets the session up and then
  fails: the trace ends with the fatal line and the exit, and the rebalance that the
  environment had next is not reached.\<close>

theorem Serve_loop_error_is_fatal_witness:
  "(case Serve_loop_with ProcessMessage 0
           [\<lparr>activities = [CallSetup 1], returned = Some (LibraryError ''broker down'')\<rparr>,
            rebalance 2 []]
           \<lparr>Configuration = \<lparr>Address = ''kafka:9092'', Topic = ''ccx'', Group = ''g1'', Timeout = 0\<rparr>,
            ConsumerGroup = Some 0,
            numberOfSuccessfullyConsumedMessages = 0,
            numberOfErrorsConsumingMessages = 0,
            Verbose = False, Ready = Some 0, Cancel = Some 0\<rparr>
           ((initial_world (\<lambda>n. int n))\<lparr>chans := [ChanOpen], ctxs := [False], groups := 1\<rparr>) of
      Halted w' \<Rightarrow>
        trace w' =
          [Called (ConsumerGroup_Consume 0 0 [''ccx'']),
           Logged InfoLevel [] (Msg ''New session has been setup''),
           Logged FatalLevel [ErrF (LibraryError ''broker down'')] (Msg ''Unable to recreate Kafka session''),
           Called (os_Exit 1)]
    | _ \<Rightarrow> False)"
proof -
  let ?c0 = "\<lparr>Configuration = \<lparr>Address = ''kafka:9092'', Topic = ''ccx'', Group = ''g1'', Timeout = 0\<rparr>,
            ConsumerGroup = Some 0,
            numberOfSuccessfullyConsumedMessages = 0,
            numberOfErrorsConsumingMessages = 0,
            Verbose = False, Ready = Some 0, Cancel = Some 0\<rparr>"
  let ?w0 = "(initial_world (\<lambda>n. int n))\<lparr>chans := [ChanOpen], ctxs := [False], groups := 1\<rparr>"
  let ?gen = "\<lparr>activities = [CallSetup 1], returned = Some (LibraryError ''broker down'')\<rparr>"
  let ?w1 = "(emit InfoLevel [] (Msg ''New session has been setup'')
               (call (ConsumerGroup_Consume 0 0 [Topic (Configuration ?c0)]) ?w0))\<lparr>chans := [ChanClosed]\<rparr>"
  have p: "perform_all_with ProcessMessage (activities ?gen) ?c0
             (call (ConsumerGroup_Consume 0 0 [Topic (Configuration ?c0)]) ?w0) = Inr (?c0, ?w1)"
    by (simp add: Setup_def close_chan_def)
  from Serve_loop_error_is_fatal [where consumer = ?c0 and g = 0 and process = ProcessMessage
      and gen = ?gen and ctx = 0 and w = ?w0 and ?consumer1.0 = ?c0 and ?w1.0 = ?w1
      and err = "LibraryError ''broker down''" and gens = "[rebalance 2 []]"] p
  show ?thesis
    by (simp add: initial_world_def)
qed

text \<open>
  Claim C6 as stated fails where it speaks of cancellation. A new consumer serves; during
  the first call of \<^verbatim>\<open>Consume\<close> the session is set up and another goroutine calls
  \<^verbatim>\<open>Close\<close>, which cancels the context; \<^verbatim>\<open>Consume\<close> then returns the error
  \<^verbatim>\<open>context.Canceled\<close>. The driver does not stop on the cancellation: it halts the
  process, with the context cancelled and without the line \<^verbatim>\<open>Stopping consumer\<close>.
\<close>

theorem cancelled_error_counterexample:
  "(case NewWithSaramaConfig
           \<lparr>Version = KafkaVersion 1 0 0 0, DialTimeout = 30, ReadTimeout = 30, WriteTimeout = 30\<rparr>
           (\<lambda>addrs group cfg. None)
           \<lparr>Address = ''kafka:9092'', Topic = ''ccx'', Group = ''g1'', Timeout = 0\<rparr>
           None False (initial_world (\<lambda>n. int n)) of
      (Inl err, w0) \<Rightarrow> False
    | (Inr consumer0, w0) \<Rightarrow>
        (case Serve [\<lparr>activities = [CallSetup 1, CallClose None], returned = Some ContextCanceled\<rparr>]
                consumer0 w0 of
           Halted w \<Rightarrow>
             ctx_Err 0 w = Some ContextCanceled
             \<and> Logged InfoLevel [ErrF ContextCanceled] (Msg ''Stopping consumer'') \<notin> set (trace w)
             \<and> last (trace w) = Called (os_Exit 1)
         | _ \<Rightarrow> False))"
proof -
  let ?c0 = "\<lparr>Configuration = \<lparr>Address = ''kafka:9092'', Topic = ''ccx'', Group = ''g1'', Timeout = 0\<rparr>,
              ConsumerGroup = Some 0,
              numberOfSuccessfullyConsumedMessages = 0, numberOfErrorsConsumingMessages = 0,
              Verbose = False, Ready = Some 0, Cancel = None\<rparr>"
  let ?w = "initial_world (\<lambda>n. int n)"
  have n: "NewWithSaramaConfig
           \<lparr>Version = KafkaVersion 1 0 0 0, DialTimeout = 30, ReadTimeout = 30, WriteTimeout = 30\<rparr>
           (\<lambda>addrs group cfg. None)
           \<lparr>Address = ''kafka:9092'', Topic = ''ccx'', Group = ''g1'', Timeout = 0\<rparr>
           None False ?w =
        (Inr ?c0,
         ?w\<lparr>trace := [Logged InfoLevel [StrF ''addr'' ''kafka:9092'', StrF ''group'' ''g1''] (Msg ''Configuration''),
                       Called (NewConsumerGroup [''kafka:9092''] ''g1''
                         \<lparr>Version = V0_10_2_0, DialTimeout = 30, ReadTimeout = 30, WriteTimeout = 30\<rparr>)],
            groups := 1, chans := [ChanOpen]\<rparr>)"
    by (simp add: NewWithSaramaConfig_def initial_world_def emit_def call_def make_chan_def)
  show ?thesis
    unfolding n
    by (simp add: Serve_def Serve_with_def context_WithCancel_def initial_world_def Setup_def
        close_chan_def Close_def cancel_def ctx_Err_def emit_def call_def)
qed

subsection \<open>What an activity does to the consumer\<close>

lemma HandleMessage_with_grows:
  assumes "HandleMessage_with process consumer msg w = Inr (consumer', w')"
  shows "\<exists>k j. k + j = non_nil [msg]
           \<and> consumer' = consumer\<lparr>numberOfSuccessfullyConsumedMessages :=
                                      numberOfSuccessfullyConsumedMessages consumer + of_nat k,
                                    numberOfErrorsConsumingMessages :=
                                      numberOfErrorsConsumingMessages consumer + of_nat j\<rparr>"
proof (cases msg)
  case None
  with assms have "consumer' = consumer" by (simp add: HandleMessage_with_None)
  with None show ?thesis by (simp add: non_nil_def)
next
  case (Some m)
  let ?w1 = "emit InfoLevel
               [Int64F offsetKey (Offset m), Int32F partitionKey (Partition m),
                StrF topicKey (msg_Topic m), TimeF ''message_timestamp'' (Timestamp m)]
               (Msg ''Started processing message'') w"
  show ?thesis
  proof (cases "process consumer (Some m) (snd (time_Now ?w1))")
    case (Inl p)
    from HandleMessage_with_panics [where process = process, OF Inl] assms Some
    show ?thesis by simp
  next
    case (Inr r)
    obtain err w3 where r: "r = (err, w3)" by (cases r)
    from Inr r have "process consumer (Some m) (snd (time_Now ?w1)) = Inr (err, w3)" by simp
    from HandleMessage_with_Some [where process = process and err = err, OF this] assms Some
    have c: "consumer' = (case err of
                   None \<Rightarrow> consumer\<lparr>numberOfSuccessfullyConsumedMessages :=
                                      numberOfSuccessfullyConsumedMessages consumer + 1\<rparr>
                 | Some e \<Rightarrow> consumer\<lparr>numberOfErrorsConsumingMessages :=
                                      numberOfErrorsConsumingMessages consumer + 1\<rparr>)"
      by auto
    show ?thesis
    proof (cases err)
      case None
      with c Some have "1 + 0 = non_nil [msg]
           \<and> consumer' = consumer\<lparr>numberOfSuccessfullyConsumedMessages :=
                                      numberOfSuccessfullyConsumedMessages consumer + of_nat 1,
                                    numberOfErrorsConsumingMessages :=
                                      numberOfErrorsConsumingMessages consumer + of_nat 0\<rparr>"
        by (simp add: non_nil_def)
      then show ?thesis by blast
    next
      case (Some e)
      with c \<open>msg = Some m\<close> have "0 + 1 = non_nil [msg]
           \<and> consumer' = consumer\<lparr>numberOfSuccessfullyConsumedMessages :=
                                      numberOfSuccessfullyConsumedMessages consumer + of_nat 0,
                                    numberOfErrorsConsumingMessages :=
                                      numberOfErrorsConsumingMessages consumer + of_nat 1\<rparr>"
        by (simp add: non_nil_def)
      then show ?thesis by blast
    qed
  qed
qed

lemma grows_trans:
  fixes consumer :: KafkaConsumer
  assumes "k1 + j1 = n1"
    and "consumer1 = consumer\<lparr>numberOfSuccessfullyConsumedMessages :=
                                  numberOfSuccessfullyConsumedMessages consumer + of_nat k1,
                                numberOfErrorsConsumingMessages :=
                                  numberOfErrorsConsumingMessages consumer + of_nat j1\<rparr>"
    and "k2 + j2 = n2"
    and "consumer2 = consumer1\<lparr>numberOfSuccessfullyConsumedMessages :=
                                  numberOfSuccessfullyConsumedMessages consumer1 + of_nat k2,
                                numberOfErrorsConsumingMessages :=
                                  numberOfErrorsConsumingMessages consumer1 + of_nat j2\<rparr>"
  shows "\<exists>k j. k + j = n1 + n2
           \<and> consumer2 = consumer\<lparr>numberOfSuccessfullyConsumedMessages :=
                                      numberOfSuccessfullyConsumedMessages consumer + of_nat k,
                                    numberOfErrorsConsumingMessages :=
                                      numberOfErrorsConsumingMessages consumer + of_nat j\<rparr>"
proof -
  have "(k1 + k2) + (j1 + j2) = n1 + n2
      \<and> consumer2 = consumer\<lparr>numberOfSuccessfullyConsumedMessages :=
                                      numberOfSuccessfullyConsumedMessages consumer + of_nat (k1 + k2),
                                    numberOfErrorsConsumingMessages :=
                                      numberOfErrorsConsumingMessages consumer + of_nat (j1 + j2)\<rparr>"
    using assms by (simp add: add.assoc)
  then show ?thesis by blast
qed

lemma claim_loop_grows:
  "claim_loop process session consumer w msgs = Inr (consumer', w') \<Longrightarrow>
     \<exists>k j. k + j = non_nil msgs
           \<and> consumer' = consumer\<lparr>numberOfSuccessfullyConsumedMessages :=
                                      numberOfSuccessfullyConsumedMessages consumer + of_nat k,
                                    numberOfErrorsConsumingMessages :=
                                      numberOfErrorsConsumingMessages consumer + of_nat j\<rparr>"
proof (induction msgs arbitrary: consumer w)
  case Nil
  then have "0 + 0 = non_nil []
           \<and> consumer' = consumer\<lparr>numberOfSuccessfullyConsumedMessages :=
                                      numberOfSuccessfullyConsumedMessages consumer + of_nat 0,
                                    numberOfErrorsConsumingMessages :=
                                      numberOfErrorsConsumingMessages consumer + of_nat 0\<rparr>"
    by (simp add: non_nil_def)
  then show ?case by blast
next
  case (Cons msg msgs)
  from Cons.prems obtain c1 w1 where h: "HandleMessage_with process consumer msg w = Inr (c1, w1)"
    by (cases "HandleMessage_with process consumer msg w") auto
  with Cons.prems have l: "claim_loop process session c1 (call (MarkMessage session msg []) w1) msgs
      = Inr (consumer', w')"
    by simp
  from HandleMessage_with_grows [OF h] obtain k1 j1 where
    a: "k1 + j1 = non_nil [msg]"
       "c1 = consumer\<lparr>numberOfSuccessfullyConsumedMessages :=
                                      numberOfSuccessfullyConsumedMessages consumer + of_nat k1,
                                    numberOfErrorsConsumingMessages :=
                                      numberOfErrorsConsumingMessages consumer + of_nat j1\<rparr>"
    by blast
  from Cons.IH [OF l] obtain k2 j2 where
    b: "k2 + j2 = non_nil msgs"
       "consumer' = c1\<lparr>numberOfSuccessfullyConsumedMessages :=
                                      numberOfSuccessfullyConsumedMessages c1 + of_nat k2,
                                    numberOfErrorsConsumingMessages :=
                                      numberOfErrorsConsumingMessages c1 + of_nat j2\<rparr>"
    by blast
  have "non_nil [msg] + non_nil msgs = non_nil (msg # msgs)"
    by (simp add: non_nil_def)
  with grows_trans [OF a b] show ?case by simp
qed

lemma grows_refl:
  fixes consumer :: KafkaConsumer
  shows "\<exists>k j. k + j = (0 :: nat)
           \<and> consumer = consumer\<lparr>numberOfSuccessfullyConsumedMessages :=
                                     numberOfSuccessfullyConsumedMessages consumer + of_nat k,
                                   numberOfErrorsConsumingMessages :=
                                     numberOfErrorsConsumingMessages consumer + of_nat j\<rparr>"
proof -
  have "0 + 0 = (0 :: nat)
      \<and> consumer = consumer\<lparr>numberOfSuccessfullyConsumedMessages :=
                                     numberOfSuccessfullyConsumedMessages consumer + of_nat 0,
                                   numberOfErrorsConsumingMessages :=
                                     numberOfErrorsConsumingMessages consumer + of_nat 0\<rparr>"
    by simp
  then show ?thesis by blast
qed

lemma perform_with_grows:
  assumes "perform_with process a consumer w = Inr (consumer', w')"
  shows "\<exists>k j. k + j = delivered a
           \<and> consumer' = consumer\<lparr>numberOfSuccessfullyConsumedMessages :=
                                      numberOfSuccessfullyConsumedMessages consumer + of_nat k,
                                    numberOfErrorsConsumingMessages :=
                                      numberOfErrorsConsumingMessages consumer + of_nat j\<rparr>"
proof (cases a)
  case (CallSetup session)
  with assms have "consumer' = consumer" by (auto split: sum.splits)
  with CallSetup grows_refl [of consumer] show ?thesis by simp
next
  case (CallConsumeClaim session claim)
  with assms have "claim_loop process session consumer
      (emit InfoLevel [Int64F offsetKey (InitialOffset claim)] (Msg ''Starting messages loop'') w)
      (Messages claim) = Inr (consumer', w')"
    by (auto simp add: ConsumeClaim_with_def split: sum.splits)
  from claim_loop_grows [OF this] CallConsumeClaim show ?thesis by simp
next
  case (CallCleanup session)
  with assms have "consumer' = consumer" by simp
  with CallCleanup grows_refl [of consumer] show ?thesis by simp
next
  case (CallHandleMessage msg)
  with assms HandleMessage_with_grows [of process consumer msg w consumer' w'] show ?thesis by simp
next
  case (CallProcessMessage msg)
  with assms have "consumer' = consumer" by (auto split: sum.splits)
  with CallProcessMessage grows_refl [of consumer] show ?thesis by simp
next
  case (CallClose closed)
  with assms have "consumer' = consumer" by (auto split: sum.splits)
  with CallClose grows_refl [of consumer] show ?thesis by simp
next
  case CallGetNumberOfSuccessfullyConsumedMessages
  with assms have "consumer' = consumer" by simp
  with CallGetNumberOfSuccessfullyConsumedMessages grows_refl [of consumer] show ?thesis by simp
next
  case CallGetNumberOfErrorsConsumingMessages
  with assms have "consumer' = consumer" by simp
  with CallGetNumberOfErrorsConsumingMessages grows_refl [of consumer] show ?thesis by simp
next
  case (StepOfClaim step)
  show ?thesis
  proof (cases step)
    case (StartLoop session claim)
    with assms StepOfClaim have "consumer' = consumer" by simp
    with StepOfClaim StartLoop grows_refl [of consumer] show ?thesis by (simp add: non_nil_def)
  next
    case (LoopPass session msg)
    with assms StepOfClaim obtain w1 where
      "HandleMessage_with process consumer msg w = Inr (consumer', w1)"
      by (auto split: sum.splits)
    from HandleMessage_with_grows [OF this] StepOfClaim LoopPass show ?thesis by simp
  qed
qed

lemma perform_all_with_grows:
  "perform_all_with process as consumer w = Inr (consumer', w') \<Longrightarrow>
     \<exists>k j. k + j = sum_list (map delivered as)
           \<and> consumer' = consumer\<lparr>numberOfSuccessfullyConsumedMessages :=
                                      numberOfSuccessfullyConsumedMessages consumer + of_nat k,
                                    numberOfErrorsConsumingMessages :=
                                      numberOfErrorsConsumingMessages consumer + of_nat j\<rparr>"
proof (induction as arbitrary: consumer w)
  case Nil
  then have "consumer' = consumer" by simp
  with grows_refl [of consumer] show ?case by simp
next
  case (Cons a as)
  from Cons.prems obtain c1 w1 where h: "perform_with process a consumer w = Inr (c1, w1)"
    by (cases "perform_with process a consumer w") auto
  with Cons.prems have l: "perform_all_with process as c1 w1 = Inr (consumer', w')"
    by simp
  from perform_with_grows [OF h] obtain k1 j1 where
    a: "k1 + j1 = delivered a"
       "c1 = consumer\<lparr>numberOfSuccessfullyConsumedMessages :=
                                      numberOfSuccessfullyConsumedMessages consumer + of_nat k1,
                                    numberOfErrorsConsumingMessages :=
                                      numberOfErrorsConsumingMessages consumer + of_nat j1\<rparr>"
    by blast
  from Cons.IH [OF l] obtain k2 j2 where
    b: "k2 + j2 = sum_list (map delivered as)"
       "consumer' = c1\<lparr>numberOfSuccessfullyConsumedMessages :=
                                      numberOfSuccessfullyConsumedMessages c1 + of_nat k2,
                                    numberOfErrorsConsumingMessages :=
                                      numberOfErrorsConsumingMessages c1 + of_nat j2\<rparr>"
    by blast
  from grows_trans [OF a b] show ?case by simp
qed


text \<open>
  Claim C7. Let a call of \<^verbatim>\<open>Consume\<close> return nil. If the context is cancelled by then,
  the loop logs \<^verbatim>\<open>Stopping consumer\<close> and ends. If it is not, the loop stores a new
  channel in \<^verbatim>\<open>Ready\<close>, one that did not exist before and is open (so that the next
  \<^verbatim>\<open>Setup\<close> can close it), and goes on with the next call of \<^verbatim>\<open>Consume\<close>: it is
  inside that call when the environment has nothing more to offer. Hence the loop stops
  only when the context is cancelled, and after any number of rebalances of a consumer
  whose context is not cancelled the driver is still running, inside \<^verbatim>\<open>Consume\<close>.
\<close>

theorem Serve_loop_after_clean_return:
  "(ConsumerGroup consumer = Some g
      \<and> perform_all_with process (activities gen) consumer
            (call (ConsumerGroup_Consume g ctx [Topic (Configuration consumer)]) w) = Inr (consumer1, w1)
      \<and> returned gen = None \<and> ctx_Err ctx w1 \<noteq> None
    \<longrightarrow> Serve_loop_with process ctx (gen # gens) consumer w =
          Stopped consumer1 (emit InfoLevel [ErrF ContextCanceled] (Msg ''Stopping consumer'') w1))
   \<and> (ConsumerGroup consumer = Some g
      \<and> perform_all_with process (activities gen) consumer
            (call (ConsumerGroup_Consume g ctx [Topic (Configuration consumer)]) w) = Inr (consumer1, w1)
      \<and> returned gen = None \<and> ctx_Err ctx w1 = None
    \<longrightarrow> (let ready = length (chans w1);
             consumer2 = consumer1\<lparr>Ready := Some ready\<rparr>;
             w2 = (emit InfoLevel [] (Msg ''Created new kafka session'') w1)\<lparr>chans := chans w1 @ [ChanOpen]\<rparr>
         in Serve_loop_with process ctx (gen # gens) consumer w =
              Serve_loop_with process ctx gens consumer2 w2
          \<and> Serve_loop_with process ctx [gen] consumer w =
              Blocked consumer2 (call (ConsumerGroup_Consume g ctx [Topic (Configuration consumer)]) w2)
          \<and> Setup consumer2 w2 =
              Inr (None, (emit InfoLevel [] (Msg ''New session has been setup'') w2)
                           \<lparr>chans := chans w1 @ [ChanClosed]\<rparr>)))
   \<and> (Serve_loop_with process ctx gens consumer w = Stopped consumer' w'
    \<longrightarrow> ctx_Err ctx w' = Some ContextCanceled)
   \<and> (ConsumerGroup consumer = Some g \<and> Ready consumer = Some r
      \<and> r < length (chans w) \<and> chans w ! r = ChanOpen \<and> ctx_Err ctx w = None
    \<longrightarrow> (\<exists>consumer' w'.
          Serve_loop ctx (map (\<lambda>(session, claims). rebalance session claims) gs) consumer w =
            Blocked consumer' w'))"
proof -
  let ?w0 = "call (ConsumerGroup_Consume g ctx [Topic (Configuration consumer)]) w"
  have stop: "Serve_loop_with process ctx (gen # gens) consumer w =
          Stopped consumer1 (emit InfoLevel [ErrF ContextCanceled] (Msg ''Stopping consumer'') w1)"
    if "ConsumerGroup consumer = Some g"
      and "perform_all_with process (activities gen) consumer ?w0 = Inr (consumer1, w1)"
      and "returned gen = None" and "ctx_Err ctx w1 \<noteq> None"
  proof -
    from that(4) obtain e where e: "ctx_Err ctx w1 = Some e" by blast
    from ctx_Err_Some [OF e] e that(1-3) show ?thesis by simp
  qed
  let ?c2 = "consumer1\<lparr>Ready := Some (length (chans w1))\<rparr>"
  let ?w2 = "(emit InfoLevel [] (Msg ''Created new kafka session'') w1)\<lparr>chans := chans w1 @ [ChanOpen]\<rparr>"
  have go: "Serve_loop_with process ctx (gen # gens) consumer w = Serve_loop_with process ctx gens ?c2 ?w2"
    if "ConsumerGroup consumer = Some g"
      and "perform_all_with process (activities gen) consumer ?w0 = Inr (consumer1, w1)"
      and "returned gen = None" and "ctx_Err ctx w1 = None" for gens
    using that by (simp add: make_chan_def)
  have again: "Serve_loop_with process ctx [gen] consumer w =
      Blocked ?c2 (call (ConsumerGroup_Consume g ctx [Topic (Configuration consumer)]) ?w2)"
    if a: "ConsumerGroup consumer = Some g"
      and b: "perform_all_with process (activities gen) consumer ?w0 = Inr (consumer1, w1)"
      and c: "returned gen = None" and d: "ctx_Err ctx w1 = None"
  proof -
    from perform_all_with_grows [OF b] a
    have "ConsumerGroup consumer1 = Some g" "Configuration consumer1 = Configuration consumer"
      by auto
    with go [OF a b c d, of "[]"] show ?thesis by simp
  qed
  have fire: "Setup ?c2 ?w2 =
      Inr (None, (emit InfoLevel [] (Msg ''New session has been setup'') ?w2)
                   \<lparr>chans := chans w1 @ [ChanClosed]\<rparr>)"
    by (simp add: Setup_def close_chan_def)
  have running: "\<exists>consumer' w'.
          Serve_loop ctx (map (\<lambda>(session, claims). rebalance session claims) gs) consumer w =
            Blocked consumer' w'"
    if "ConsumerGroup consumer = Some g" "Ready consumer = Some r"
      "r < length (chans w)" "chans w ! r = ChanOpen" "ctx_Err ctx w = None"
    using Serve_loop_rebalances [OF that, of gs] by (auto simp add: Serve_loop_def)
  from stop go again fire running Serve_loop_with_Stopped [of process ctx gens consumer w consumer' w']
  show ?thesis by (simp add: Let_def)
qed

text \<open>The theorem at a driver that sees a rebalance and then, during the second call of
  \<^verbatim>\<open>Consume\<close>, a call of \<^verbatim>\<open>Close\<close>: the rebalance does not end it, the cancellation
  does.\<close>

theorem Serve_loop_after_clean_return_witness:
  "(case Serve_loop_with ProcessMessage 0
           [rebalance 1 [], \<lparr>activities = [CallSetup 2, CallClose None], returned = None\<rparr>]
           \<lparr>Configuration = \<lparr>Address = ''kafka:9092'', Topic = ''ccx'', Group = ''g1'', Timeout = 0\<rparr>,
            ConsumerGroup = Some 0,
            numberOfSuccessfullyConsumedMessages = 0,
            numberOfErrorsConsumingMessages = 0,
            Verbose = False, Ready = Some 0, Cancel = Some 0\<rparr>
           ((initial_world (\<lambda>n. int n))\<lparr>chans := [ChanOpen], ctxs := [False], groups := 1\<rparr>) of
      Stopped consumer' w' \<Rightarrow>
        Ready consumer' = Some 1
        \<and> chans w' = [ChanClosed, ChanClosed]
        \<and> ctx_Err 0 w' = Some ContextCanceled
        \<and> trace w' =
          [Called (ConsumerGroup_Consume 0 0 [''ccx'']),
           Logged InfoLevel [] (Msg ''New session has been setup''),
           Logged InfoLevel [] (Msg ''New session has been finished''),
           Logged InfoLevel [] (Msg ''Created new kafka session''),
           Called (ConsumerGroup_Consume 0 0 [''ccx'']),
           Logged InfoLevel [] (Msg ''New session has been setup''),
           Called (ConsumerGroup_Close 0),
           Logged InfoLevel [ErrF ContextCanceled] (Msg ''Stopping consumer'')]
    | _ \<Rightarrow> False)"
proof -
  let ?c0 = "\<lparr>Configuration = \<lparr>Address = ''kafka:9092'', Topic = ''ccx'', Group = ''g1'', Timeout = 0\<rparr>,
            ConsumerGroup = Some 0,
            numberOfSuccessfullyConsumedMessages = 0,
            numberOfErrorsConsumingMessages = 0,
            Verbose = False, Ready = Some 0, Cancel = Some 0\<rparr>"
  let ?w0 = "(initial_world (\<lambda>n. int n))\<lparr>chans := [ChanOpen], ctxs := [False], groups := 1\<rparr>"
  let ?gen2 = "\<lparr>activities = [CallSetup 2, CallClose None], returned = None\<rparr>"
  let ?w1 = "emit InfoLevel [] (Msg ''New session has been finished'')
               ((emit InfoLevel [] (Msg ''New session has been setup'')
                  (call (ConsumerGroup_Consume 0 0 [Topic (Configuration ?c0)]) ?w0))\<lparr>chans := [ChanClosed]\<rparr>)"
  have p: "perform_all_with ProcessMessage (activities (rebalance 1 [])) ?c0
             (call (ConsumerGroup_Consume 0 0 [Topic (Configuration ?c0)]) ?w0) = Inr (?c0, ?w1)"
    by (simp add: rebalance_def Setup_def close_chan_def Cleanup_def)
  have r: "returned (rebalance 1 []) = None"
    by (simp add: rebalance_def)
  have e: "ctx_Err 0 ?w1 = None"
    by (simp add: ctx_Err_def initial_world_def)
  from Serve_loop_after_clean_return [where consumer = ?c0 and g = 0 and process = ProcessMessage
      and gen = "rebalance 1 []" and ctx = 0 and w = ?w0 and ?consumer1.0 = ?c0 and ?w1.0 = ?w1
      and gens = "[?gen2]"] p r e
  have "Serve_loop_with ProcessMessage 0 [rebalance 1 [], ?gen2] ?c0 ?w0 =
      Serve_loop_with ProcessMessage 0 [?gen2] (?c0\<lparr>Ready := Some 1\<rparr>)
        ((emit InfoLevel [] (Msg ''Created new kafka session'') ?w1)\<lparr>chans := [ChanClosed, ChanOpen]\<rparr>)"
    by (simp add: Let_def)
  then show ?thesis
    by (simp add: initial_world_def Setup_def close_chan_def Close_def cancel_def ctx_Err_def
        emit_def call_def)
qed

subsection \<open>The counters over the life of a consumer\<close>






subsection \<open>The timeout of the configuration\<close>

lemma with_Timeout_fields [simp]:
  "ConsumerGroup (with_Timeout t consumer) = ConsumerGroup consumer"
  "Ready (with_Timeout t consumer) = Ready consumer"
  "Cancel (with_Timeout t consumer) = Cancel consumer"
  "Verbose (with_Timeout t consumer) = Verbose consumer"
  "numberOfSuccessfullyConsumedMessages (with_Timeout t consumer) =
     numberOfSuccessfullyConsumedMessages consumer"
  "numberOfErrorsConsumingMessages (with_Timeout t consumer) =
     numberOfErrorsConsumingMessages consumer"
  "Topic (Configuration (with_Timeout t consumer)) = Topic (Configuration consumer)"
  "Group (Configuration (with_Timeout t consumer)) = Group (Configuration consumer)"
  "Address (Configuration (with_Timeout t consumer)) = Address (Configuration consumer)"
  by (simp_all add: with_Timeout_def)

lemma with_Timeout_Ready:
  "with_Timeout t (consumer\<lparr>Ready := r\<rparr>) = (with_Timeout t consumer)\<lparr>Ready := r\<rparr>"
  by (simp add: with_Timeout_def)

lemma ProcessMessage_with_Timeout:
  "ProcessMessage (with_Timeout t consumer) msg w = ProcessMessage consumer msg w"
  by (cases msg) (simp_all add: ProcessMessage_def Let_def)

lemma HandleMessage_with_Timeout:
  "HandleMessage_with ProcessMessage (with_Timeout t consumer) msg w =
     (case HandleMessage_with ProcessMessage consumer msg w of
        Inl p \<Rightarrow> Inl p
      | Inr (consumer', w') \<Rightarrow> Inr (with_Timeout t consumer', w'))"
proof (cases msg)
  case None
  then show ?thesis by (simp add: HandleMessage_with_None)
next
  case (Some m)
  then show ?thesis
    by (simp add: HandleMessage_with_def ProcessMessage_Some ProcessMessage_with_Timeout
        Let_def split_def with_Timeout_def)
qed

lemma claim_loop_with_Timeout:
  "claim_loop ProcessMessage session (with_Timeout t consumer) w msgs =
     (case claim_loop ProcessMessage session consumer w msgs of
        Inl p \<Rightarrow> Inl p
      | Inr (consumer', w') \<Rightarrow> Inr (with_Timeout t consumer', w'))"
proof (induction msgs arbitrary: consumer w)
  case Nil
  show ?case by simp
next
  case (Cons msg msgs)
  show ?case
    by (cases "HandleMessage_with ProcessMessage consumer msg w")
      (auto simp add: HandleMessage_with_Timeout Cons.IH)
qed

lemma perform_with_Timeout:
  "perform_with ProcessMessage a (with_Timeout t consumer) w =
     (case perform_with ProcessMessage a consumer w of
        Inl p \<Rightarrow> Inl p
      | Inr (consumer', w') \<Rightarrow> Inr (with_Timeout t consumer', w'))"
proof (cases a)
  case (CallSetup session)
  then show ?thesis by (simp add: Setup_def split: sum.split)
next
  case (CallConsumeClaim session claim)
  then show ?thesis
    by (simp add: ConsumeClaim_with_def claim_loop_with_Timeout split: sum.split)
next
  case (CallCleanup session)
  then show ?thesis by (simp add: Cleanup_def)
next
  case (CallHandleMessage msg)
  then show ?thesis by (simp add: HandleMessage_with_Timeout)
next
  case (CallProcessMessage msg)
  then show ?thesis by (simp add: ProcessMessage_with_Timeout split: sum.split)
next
  case (CallClose closed)
  then show ?thesis by (simp add: Close_def Let_def)
next
  case CallGetNumberOfSuccessfullyConsumedMessages
  then show ?thesis by simp
next
  case CallGetNumberOfErrorsConsumingMessages
  then show ?thesis by simp
next
  case (StepOfClaim step)
  then show ?thesis
    by (cases step) (simp_all add: HandleMessage_with_Timeout split: sum.split)
qed

lemma perform_all_with_Timeout:
  "perform_all_with ProcessMessage as (with_Timeout t consumer) w =
     (case perform_all_with ProcessMessage as consumer w of
        Inl p \<Rightarrow> Inl p
      | Inr (consumer', w') \<Rightarrow> Inr (with_Timeout t consumer', w'))"
proof (induction as arbitrary: consumer w)
  case Nil
  show ?case by simp
next
  case (Cons a as)
  show ?case
    by (cases "perform_with ProcessMessage a consumer w")
      (auto simp add: perform_with_Timeout Cons.IH)
qed

lemma Serve_loop_with_Timeout:
  "Serve_loop_with ProcessMessage ctx gens (with_Timeout t consumer) w =
     outcome_with_Timeout t (Serve_loop_with ProcessMessage ctx gens consumer w)"
proof (induction gens arbitrary: consumer w)
  case Nil
  show ?case by (simp split: option.split)
next
  case (Cons gen gens)
  show ?case
  proof (cases "ConsumerGroup consumer")
    case None
    then show ?thesis by simp
  next
    case (Some g)
    let ?w0 = "call (ConsumerGroup_Consume g ctx [Topic (Configuration consumer)]) w"
    show ?thesis
    proof (cases "perform_all_with ProcessMessage (activities gen) consumer ?w0")
      case (Inl p)
      with Some show ?thesis by (simp add: perform_all_with_Timeout)
    next
      case (Inr r)
      obtain c1 w1 where r: "r = (c1, w1)" by (cases r)
      from Some Inr r Cons.IH [of "c1\<lparr>Ready := Some (length (chans w1))\<rparr>"]
      show ?thesis
        by (simp add: perform_all_with_Timeout make_chan_def with_Timeout_Ready
            split: option.split)
    qed
  qed
qed

text \<open>
  Claim C10. Take two configurations that differ in the timeout only. Construction answers
  the same for both: the same error, or consumers that are equal but for the stored timeout,
  and in either case the same log and the same call of \<^verbatim>\<open>sarama.NewConsumerGroup\<close>, with the
  same client configuration. From then on every method and \<^verbatim>\<open>Serve\<close> do the same on the
  two consumers: the same panic or exit, the same log and library calls, the same channels
  and contexts, and consumers that again are equal but for the stored timeout. The timeout
  is stored and never read.
\<close>

theorem Timeout_is_never_read:
  "NewWithSaramaConfig dflt new_group (brokerCfg\<lparr>Timeout := t\<rparr>) saramaConfig verbose w =
     (case NewWithSaramaConfig dflt new_group brokerCfg saramaConfig verbose w of
        (Inl err, w') \<Rightarrow> (Inl err, w')
      | (Inr consumer', w') \<Rightarrow> (Inr (with_Timeout t consumer'), w'))
   \<and> NewConsumer dflt new_group (brokerCfg\<lparr>Timeout := t\<rparr>) verbose w =
     (case NewConsumer dflt new_group brokerCfg verbose w of
        (Inl err, w') \<Rightarrow> (Inl err, w')
      | (Inr consumer', w') \<Rightarrow> (Inr (with_Timeout t consumer'), w'))
   \<and> perform a (with_Timeout t consumer) w =
     (case perform a consumer w of
        Inl p \<Rightarrow> Inl p
      | Inr (consumer', w') \<Rightarrow> Inr (with_Timeout t consumer', w'))
   \<and> Serve gens (with_Timeout t consumer) w = outcome_with_Timeout t (Serve gens consumer w)
   \<and> GetNumberOfSuccessfullyConsumedMessages (with_Timeout t consumer) =
       GetNumberOfSuccessfullyConsumedMessages consumer
   \<and> GetNumberOfErrorsConsumingMessages (with_Timeout t consumer) =
       GetNumberOfErrorsConsumingMessages consumer
   \<and> Timeout (Configuration (with_Timeout t consumer)) = t"
proof -
  have new: "NewWithSaramaConfig dflt new_group (brokerCfg\<lparr>Timeout := t\<rparr>) saramaConfig verbose w =
     (case NewWithSaramaConfig dflt new_group brokerCfg saramaConfig verbose w of
        (Inl err, w') \<Rightarrow> (Inl err, w')
      | (Inr consumer', w') \<Rightarrow> (Inr (with_Timeout t consumer'), w'))" for saramaConfig
    by (simp add: NewWithSaramaConfig_def Let_def make_chan_def with_Timeout_def split: option.split)
  have cancel: "(with_Timeout t consumer)\<lparr>Cancel := c\<rparr> = with_Timeout t (consumer\<lparr>Cancel := c\<rparr>)" for c
    by (simp add: with_Timeout_def)
  have serve: "Serve gens (with_Timeout t consumer) w = outcome_with_Timeout t (Serve gens consumer w)"
    by (simp add: Serve_def Serve_with_def context_WithCancel_def cancel Serve_loop_with_Timeout)
  have stored: "Timeout (Configuration (with_Timeout t consumer)) = t"
    by (simp add: with_Timeout_def)
  from new serve stored show ?thesis
    by (simp add: NewConsumer_def perform_def perform_with_Timeout
        GetNumberOfSuccessfullyConsumedMessages_def GetNumberOfErrorsConsumingMessages_def)
qed

end
